(* ===== verification/Prelude.thy ===== *)
theory Prelude
  imports Main "HOL-Library.Word" "HOL-Library.Multiset" "HOL-Library.Sublist"
begin

text \<open>
  Shared vocabulary of the Quelay development.

  Rust's unsigned integers are natural numbers here, with the width written out where the source
  can leave it: \<open>add_u64\<close>, \<open>sub_u64\<close>, \<open>add_u32\<close> and \<open>mul_u64\<close> wrap (the release profile has no overflow
  checks), \<open>saturating_add_u64\<close> and \<open>saturating_sub_u64\<close> clamp, and \<open>as_u16\<close> and \<open>as_i32\<close> are the
  truncating casts. Bytes are 8-bit words. The functions of Rust's standard library that several components
  call (\<open>position\<close>, \<open>Vec::insert\<close>, big-endian byte conversion) are modelled once, with the
  lemmas their callers share. The locale \<open>priority_order\<close> is the contract of the two places that
  keep a list in descending priority order.
\<close>

named_theorems width_simps \<open>unfolding the fixed-width arithmetic of the source\<close>
named_theorems wf_intros \<open>preservation of the components' well-formedness invariants\<close>

type_synonym u8 = "8 word"
type_synonym uuid = nat

section \<open>Fixed-width arithmetic\<close>

definition u64_max :: nat where
  "u64_max = 2 ^ 64 - 1"

definition u32_max :: nat where
  "u32_max = 2 ^ 32 - 1"

definition add_u64 :: "nat \<Rightarrow> nat \<Rightarrow> nat" where
  "add_u64 a b = (a + b) mod 2 ^ 64"

definition sub_u64 :: "nat \<Rightarrow> nat \<Rightarrow> nat" where
  "sub_u64 a b = (a + (2 ^ 64 - b mod 2 ^ 64)) mod 2 ^ 64"

definition mul_u64 :: "nat \<Rightarrow> nat \<Rightarrow> nat" where
  "mul_u64 a b = (a * b) mod 2 ^ 64"

definition add_u32 :: "nat \<Rightarrow> nat \<Rightarrow> nat" where
  "add_u32 a b = (a + b) mod 2 ^ 32"

definition saturating_add_u64 :: "nat \<Rightarrow> nat \<Rightarrow> nat" where
  "saturating_add_u64 a b = min (a + b) u64_max"

definition saturating_sub_u64 :: "nat \<Rightarrow> nat \<Rightarrow> nat" where
  "saturating_sub_u64 a b = a - b"

definition as_u16 :: "nat \<Rightarrow> nat" where
  "as_u16 n = n mod 2 ^ 16"

definition as_i32 :: "nat \<Rightarrow> int" where
  "as_i32 n = (let m = n mod 2 ^ 32 in if m < 2 ^ 31 then int m else int m - 2 ^ 32)"

definition clamp_u64 :: "nat \<Rightarrow> nat \<Rightarrow> nat \<Rightarrow> nat" where
  "clamp_u64 x lo hi = (if x < lo then lo else if hi < x then hi else x)"

lemma add_u64_exact [simp]: "a + b \<le> u64_max \<Longrightarrow> add_u64 a b = a + b"
  by (simp add: add_u64_def u64_max_def)

lemma sub_u64_exact [simp]:
  assumes "b \<le> a" "a \<le> u64_max"
  shows "sub_u64 a b = a - b"
proof -
  have b: "b mod 2 ^ 64 = b" using assms by (simp add: u64_max_def)
  have "a + (2 ^ 64 - b) = (a - b) + 2 ^ 64" using assms by (simp add: u64_max_def)
  then have "sub_u64 a b = (a - b) mod 2 ^ 64" unfolding sub_u64_def b by simp
  then show ?thesis using assms by (simp add: u64_max_def)
qed

lemma add_u32_exact [simp]: "a + b \<le> u32_max \<Longrightarrow> add_u32 a b = a + b"
  by (simp add: add_u32_def u32_max_def)

lemma mul_u64_exact [simp]: "a * b \<le> u64_max \<Longrightarrow> mul_u64 a b = a * b"
  by (simp add: mul_u64_def u64_max_def)

lemma as_u16_exact [simp]: "n < 65536 \<Longrightarrow> as_u16 n = n"
  by (simp add: as_u16_def)

lemma as_i32_exact [simp]: "n < 2147483648 \<Longrightarrow> as_i32 n = int n"
  by (simp add: as_i32_def)

lemma saturating_sub_u64_le: "saturating_sub_u64 a b \<le> a"
  by (simp add: saturating_sub_u64_def)

lemma clamp_u64_bounds: "lo \<le> hi \<Longrightarrow> lo \<le> clamp_u64 x lo hi \<and> clamp_u64 x lo hi \<le> hi"
  by (simp add: clamp_u64_def)

lemmas [width_simps] = saturating_add_u64_def saturating_sub_u64_def u64_max_def u32_max_def

section \<open>Big-endian byte conversion\<close>

text \<open>\<open>to_be_bytes k n\<close> is \<open>uN::to_be_bytes\<close> for the k-byte integer type, \<open>from_be_bytes\<close> its
  inverse \<open>uN::from_be_bytes\<close>.\<close>

fun to_be_bytes :: "nat \<Rightarrow> nat \<Rightarrow> u8 list" where
  "to_be_bytes 0 n = []"
| "to_be_bytes (Suc k) n = to_be_bytes k (n div 256) @ [word_of_nat n]"

fun from_be_acc :: "nat \<Rightarrow> u8 list \<Rightarrow> nat" where
  "from_be_acc acc [] = acc"
| "from_be_acc acc (b # bs) = from_be_acc (acc * 256 + unat b) bs"

definition from_be_bytes :: "u8 list \<Rightarrow> nat" where
  "from_be_bytes bs = from_be_acc 0 bs"

lemma length_to_be_bytes [simp]: "length (to_be_bytes k n) = k"
  by (induction k arbitrary: n) auto

lemma from_be_acc_append: "from_be_acc acc (xs @ ys) = from_be_acc (from_be_acc acc xs) ys"
  by (induction xs arbitrary: acc) auto

lemma from_be_bytes_snoc: "from_be_bytes (xs @ [b]) = from_be_bytes xs * 256 + unat b"
  by (simp add: from_be_bytes_def from_be_acc_append)

lemma unat_word_of_nat_u8: "unat (word_of_nat n :: u8) = n mod 256"
  by (simp add: unat_of_nat)

lemma from_to_be_bytes: "from_be_bytes (to_be_bytes k n) = n mod 256 ^ k"
proof (induction k arbitrary: n)
  case 0
  then show ?case by (simp add: from_be_bytes_def)
next
  case (Suc k)
  have "from_be_bytes (to_be_bytes (Suc k) n) = (n div 256) mod 256 ^ k * 256 + n mod 256"
    by (simp add: from_be_bytes_snoc unat_word_of_nat_u8 Suc.IH)
  also have "\<dots> = n mod (256 * 256 ^ k)"
    by (simp add: mod_mult2_eq)
  finally show ?case by simp
qed

lemma from_be_bytes_bound: "from_be_bytes bs < 256 ^ length bs"
proof (induction bs rule: rev_induct)
  case Nil
  then show ?case by (simp add: from_be_bytes_def)
next
  case (snoc b bs)
  have "unat b < 256" using unsigned_less [of b] by simp
  moreover have "from_be_bytes bs + 1 \<le> 256 ^ length bs" using snoc by simp
  then have "(from_be_bytes bs + 1) * 256 \<le> 256 ^ length bs * 256" by (rule mult_le_mono1)
  ultimately show ?case by (simp add: from_be_bytes_snoc)
qed

lemma to_from_be_bytes: "to_be_bytes (length bs) (from_be_bytes bs) = bs"
proof (induction bs rule: rev_induct)
  case Nil
  then show ?case by simp
next
  case (snoc b bs)
  have b: "unat b < 256" using unsigned_less [of b] by simp
  then have "(from_be_bytes bs * 256 + unat b) div 256 = from_be_bytes bs" by simp
  moreover have "(word_of_nat (from_be_bytes bs * 256 + unat b) :: u8) = b"
    by (simp only: word_unat_eq_iff unat_word_of_nat_u8) (simp add: b)
  ultimately show ?case by (simp add: from_be_bytes_snoc snoc)
qed

section \<open>Iterator and vector operations\<close>

text \<open>\<open>position p xs\<close> is \<open>xs.iter().position(p)\<close>, \<open>vec_insert i x xs\<close> is \<open>xs.insert(i, x)\<close> and
  \<open>vec_remove i xs\<close> is \<open>xs.remove(i)\<close> (each for an index the source has in range).\<close>

fun position :: "('a \<Rightarrow> bool) \<Rightarrow> 'a list \<Rightarrow> nat option" where
  "position p [] = None"
| "position p (x # xs) = (if p x then Some 0 else map_option Suc (position p xs))"

definition vec_insert :: "nat \<Rightarrow> 'a \<Rightarrow> 'a list \<Rightarrow> 'a list" where
  "vec_insert i x xs = take i xs @ x # drop i xs"

definition vec_remove :: "nat \<Rightarrow> 'a list \<Rightarrow> 'a list" where
  "vec_remove i xs = take i xs @ drop (Suc i) xs"

definition unwrap_or :: "'a option \<Rightarrow> 'a \<Rightarrow> 'a" where
  "unwrap_or v d = (case v of None \<Rightarrow> d | Some w \<Rightarrow> w)"

lemma unwrap_or_simps [simp]: "unwrap_or None d = d" "unwrap_or (Some v) d = v"
  by (simp_all add: unwrap_or_def)

lemma position_None: "position p xs = None \<longleftrightarrow> (\<forall>x \<in> set xs. \<not> p x)"
  by (induction xs) auto

lemma position_Some:
  "position p xs = Some i \<Longrightarrow> i < length xs \<and> p (xs ! i) \<and> (\<forall>x \<in> set (take i xs). \<not> p x)"
  by (induction xs arbitrary: i) (auto split: if_splits)

lemma position_split:
  obtains us vs where "xs = us @ vs" and "length us = unwrap_or (position p xs) (length xs)"
    and "\<forall>u \<in> set us. \<not> p u" and "vs = [] \<or> p (hd vs)"
proof (cases "position p xs")
  case None
  then show ?thesis using that [of xs "[]"] None by (simp add: position_None)
next
  case (Some i)
  note pos = position_Some [OF Some]
  then have "drop i xs \<noteq> []" and "hd (drop i xs) = xs ! i" by (auto simp: hd_drop_conv_nth)
  then show ?thesis using that [of "take i xs" "drop i xs"] pos Some by simp
qed

lemma mset_vec_insert [simp]: "mset (vec_insert i x xs) = add_mset x (mset xs)"
proof -
  have "mset (take i xs @ drop i xs) = mset xs" by simp
  then show ?thesis by (simp add: vec_insert_def del: append_take_drop_id)
qed

lemma set_vec_insert [simp]: "set (vec_insert i x xs) = insert x (set xs)"
proof -
  have "set_mset (mset (vec_insert i x xs)) = insert x (set xs)" by (simp only: mset_vec_insert) simp
  then show ?thesis by (simp only: set_mset_mset)
qed

lemma length_vec_insert [simp]: "length (vec_insert i x xs) = Suc (length xs)"
proof -
  have "size (mset (vec_insert i x xs)) = Suc (length xs)" by (simp only: mset_vec_insert) simp
  then show ?thesis by (simp only: size_mset)
qed

lemma vec_insert_nth [simp]: "i \<le> length xs \<Longrightarrow> vec_insert i x xs ! i = x"
  by (simp add: vec_insert_def nth_append)

lemma distinct_vec_insert [simp]:
  "distinct (vec_insert i x xs) \<longleftrightarrow> x \<notin> set xs \<and> distinct xs"
proof -
  have "distinct (vec_insert i x xs) \<longleftrightarrow> distinct (x # (take i xs @ drop i xs))"
    unfolding vec_insert_def by (auto simp del: append_take_drop_id)
  then show ?thesis by simp
qed

section \<open>Lists kept in descending priority order\<close>

text \<open>
  Both \<open>RemoteState::enqueue\<close> and the strict queue of \<open>DrrScheduler::register\<close> insert an element
  before the first one of strictly lower priority. The contract: the list is split there, nothing
  else moves. From it: the order is kept, elements of equal priority stay in arrival order, and no
  element is lost.
\<close>

locale priority_order =
  fixes prio :: "'a \<Rightarrow> 'p::linorder"
    and ins :: "'a \<Rightarrow> 'a list \<Rightarrow> 'a list"
  assumes ins_split:
    "\<exists>us vs. xs = us @ vs \<and> ins x xs = us @ x # vs \<and> (\<forall>u \<in> set us. prio x \<le> prio u) \<and>
       (vs = [] \<or> prio (hd vs) < prio x)"
begin

definition descending :: "'a list \<Rightarrow> bool" where
  "descending xs \<longleftrightarrow> sorted_wrt (\<lambda>a b. prio b \<le> prio a) xs"

lemma descending_tail_below:
  "descending vs \<Longrightarrow> vs = [] \<or> prio (hd vs) < prio x \<Longrightarrow> v \<in> set vs \<Longrightarrow> prio v < prio x"
  by (cases vs) (auto simp: descending_def intro: le_less_trans)

lemma ins_descending: "descending xs \<Longrightarrow> descending (ins x xs)"
proof -
  assume xs: "descending xs"
  obtain us vs where s: "xs = us @ vs" "ins x xs = us @ x # vs" "\<forall>u \<in> set us. prio x \<le> prio u"
    "vs = [] \<or> prio (hd vs) < prio x"
    using ins_split [where x = x and xs = xs] by blast
  from xs s(1) have vs: "descending vs" by (simp add: descending_def sorted_wrt_append)
  then have "\<forall>v \<in> set vs. prio v < prio x" using descending_tail_below s(4) by blast
  with s xs show ?thesis by (auto simp: descending_def sorted_wrt_append less_imp_le)
qed

lemma ins_mset: "mset (ins x xs) = add_mset x (mset xs)"
  using ins_split [where x = x and xs = xs] by auto

lemma ins_set: "set (ins x xs) = insert x (set xs)"
  using ins_split [where x = x and xs = xs] by auto

text \<open>Submission order within one priority level: the new element comes last.\<close>

lemma ins_fifo:
  "descending xs \<Longrightarrow> filter (\<lambda>y. prio y = prio x) (ins x xs) = filter (\<lambda>y. prio y = prio x) xs @ [x]"
proof -
  assume xs: "descending xs"
  obtain us vs where s: "xs = us @ vs" "ins x xs = us @ x # vs" "vs = [] \<or> prio (hd vs) < prio x"
    using ins_split [where x = x and xs = xs] by blast
  from xs s(1) have "descending vs" by (simp add: descending_def sorted_wrt_append)
  then have "\<forall>v \<in> set vs. prio v < prio x" using descending_tail_below s(3) by blast
  then have "filter (\<lambda>y. prio y = prio x) vs = []" by (fastforce simp: filter_empty_conv)
  with s show ?thesis by simp
qed

lemma ins_filter_other:
  "\<not> P x \<Longrightarrow> filter P (ins x xs) = filter P xs"
  using ins_split [where x = x and xs = xs] by auto

end

text \<open>The insertion both call sites share satisfies the contract.\<close>

lemma insert_before_lower_split:
  fixes prio :: "'a \<Rightarrow> 'p::linorder"
  shows "\<exists>us vs. xs = us @ vs \<and>
     vec_insert (unwrap_or (position (\<lambda>e. prio e < p) xs) (length xs)) x xs = us @ x # vs \<and>
     (\<forall>u \<in> set us. p \<le> prio u) \<and> (vs = [] \<or> prio (hd vs) < p)"
proof -
  obtain us vs where s: "xs = us @ vs"
    "length us = unwrap_or (position (\<lambda>e. prio e < p) xs) (length xs)"
    "\<forall>u \<in> set us. \<not> prio u < p" "vs = [] \<or> prio (hd vs) < p"
    by (rule position_split [of xs "\<lambda>e. prio e < p"])
  have "vec_insert (length us) x (us @ vs) = us @ x # vs" by (simp add: vec_insert_def)
  with s show ?thesis by (metis not_less)
qed

lemma factor_small:
  fixes j k :: nat
  assumes "j * k < b" "0 < j \<and> 0 < k"
  shows "j < b" "k < b"
  using assms by (metis le_less_trans mult_le_mono2 nat_mult_1_right Suc_leI One_nat_def mult.commute)+

section \<open>Prefix arithmetic on lists\<close>

lemma take_append_slice: "n \<le> length xs \<Longrightarrow> take n xs @ take m (drop n xs) = take (n + m) xs"
  by (simp add: take_add)

lemma take_drop_prefix:
  "off \<le> w \<Longrightarrow> drop (w - off) (take k (drop off xs)) = take (off + k - w) (drop w xs)"
  by (simp add: drop_take add.commute)

end
