(* ===== verification/Domain.thy ===== *)
theory Domain
  imports Prelude
begin

text \<open>
  The vocabulary of quelay-domain: \<open>Priority\<close> (priority.rs), \<open>QueLayError\<close> (error.rs), the link
  state and connection statistics of transport.rs, and the stream metadata of session.rs.

  A \<open>Priority\<close> wraps an \<open>i8\<close>; the derived order of the Rust type is the signed order of that
  byte, which the \<open>linorder\<close> instance below gives to the library's sorting lemmas. Error values
  keep the constructor and the literal text of the message, without interpolated values. The
  \<open>f64\<close> fields are pairs: \<open>percent_done\<close> is the pair (bytes, total) of the expression
  bytes / total * 100, which the source only forwards.
\<close>

section \<open>Priority\<close>

datatype priority = Priority (as_i8: "8 word")

instantiation priority :: linorder
begin

definition less_eq_priority :: "priority \<Rightarrow> priority \<Rightarrow> bool" where
  "less_eq_priority p q \<longleftrightarrow> sint (as_i8 p) \<le> sint (as_i8 q)"

definition less_priority :: "priority \<Rightarrow> priority \<Rightarrow> bool" where
  "less_priority p q \<longleftrightarrow> sint (as_i8 p) < sint (as_i8 q)"

instance
proof
  fix p q r :: priority
  show "p < q \<longleftrightarrow> p \<le> q \<and> \<not> q \<le> p" by (auto simp: less_eq_priority_def less_priority_def)
  show "p \<le> p" by (simp add: less_eq_priority_def)
  show "p \<le> q \<Longrightarrow> q \<le> r \<Longrightarrow> p \<le> r" by (simp add: less_eq_priority_def)
  show "p = q" if "p \<le> q" "q \<le> p"
  proof -
    from that have "sint (as_i8 p) = sint (as_i8 q)" by (simp add: less_eq_priority_def)
    then have "as_i8 p = as_i8 q" by (rule signed_word_eqI)
    then show ?thesis by (rule priority.expand)
  qed
  show "p \<le> q \<or> q \<le> p" by (auto simp: less_eq_priority_def)
qed

end

definition STRICT_MIN :: "8 word" where
  "STRICT_MIN = 64"

definition from_i8 :: "8 word \<Rightarrow> priority" where
  "from_i8 value = Priority value"

definition is_strict :: "priority \<Rightarrow> bool" where
  "is_strict p \<longleftrightarrow> 64 \<le> sint (as_i8 p)"

definition initial_quantum :: "priority \<Rightarrow> nat" where
  "initial_quantum p = (if is_strict p then 65536 else 8192)"

definition bulk_quantum :: nat where
  "bulk_quantum = 8192"

definition c2i_priority_min :: priority where
  "c2i_priority_min = Priority STRICT_MIN"

definition bulk_priority_min :: priority where
  "bulk_priority_min = Priority 0"

section \<open>Errors\<close>

datatype quelay_error =
    Transport string
  | StreamReset nat
  | AlreadyFinished
  | SessionClosed
  | StreamNotFound uuid
  | Io string

section \<open>Link state and statistics\<close>

datatype link_state = Connecting | Normal | Degraded | Failed

record conn_stats =
  sent_packets :: nat
  lost_packets :: nat
  congestion_events :: nat
  rtt_ms :: nat
  cwnd :: nat
  lost_bytes :: nat

definition default_conn_stats :: conn_stats where
  "default_conn_stats = \<lparr>sent_packets = 0, lost_packets = 0, congestion_events = 0, rtt_ms = 0,
     cwnd = 0, lost_bytes = 0\<rparr>"

section \<open>Stream metadata\<close>

record stream_info =
  size_bytes :: "nat option"
  attrs :: "string \<rightharpoonup> string"

record queue_status =
  active_count :: int
  qs_max_concurrent :: int
  qs_max_pending :: int
  qs_pending :: "uuid list"

record transfer_progress =
  tp_uuid :: uuid
  bytes_transferred :: nat
  percent_done :: "(nat \<times> nat) option"
  throughput_bps :: nat

section \<open>Facts\<close>

lemma is_strict_iff_c2i_min: "is_strict p \<longleftrightarrow> c2i_priority_min \<le> p"
  by (simp add: is_strict_def c2i_priority_min_def STRICT_MIN_def less_eq_priority_def)

lemma strict_above_bulk: "is_strict p \<Longrightarrow> \<not> is_strict q \<Longrightarrow> q < p"
  by (simp add: is_strict_def less_priority_def)

lemma initial_quantum_pos: "0 < initial_quantum p"
  by (simp add: initial_quantum_def)

lemma initial_quantum_u32: "initial_quantum p \<le> u32_max"
  by (simp add: initial_quantum_def u32_max_def)

lemma not_strict_bulk_min [simp]: "\<not> is_strict bulk_priority_min"
  by (simp add: is_strict_def bulk_priority_min_def)

lemma strict_c2i_min [simp]: "is_strict c2i_priority_min"
  by (simp add: is_strict_def c2i_priority_min_def STRICT_MIN_def)

end
