(* ===== verification/Framing.thy ===== *)
theory Framing
  imports Domain
begin

text \<open>
  The wire format (quelay-agent/src/framing.rs, and \<open>encode_chunk\<close> of rate_limiter.rs).

  A reader is the bytes a QUIC stream will still deliver and whether it then ends with a clean
  FIN or breaks; a writer is the bytes accepted so far and how many more are accepted before the
  stream fails (\<open>None\<close>: it never fails). JSON encoding is serde_json's: the functions that use it
  take the encoder and the decoder as arguments. Error messages keep the literal text of the
  source without the values formatted into it. The locale \<open>chunk_codec\<close> is what the pump and the
  downlink need of chunk framing; both encoders of the source are instances.
\<close>

section \<open>Byte streams\<close>

record reader =
  rd_bytes :: "u8 list"
  rd_fin :: bool

record writer =
  wr_bytes :: "u8 list"
  wr_room :: "nat option"

definition read_exact :: "nat \<Rightarrow> string \<Rightarrow> reader \<Rightarrow> quelay_error + u8 list \<times> reader" where
  "read_exact n msg r =
     (if n \<le> length (rd_bytes r)
      then Inr (take n (rd_bytes r), r\<lparr>rd_bytes := drop n (rd_bytes r)\<rparr>)
      else Inl (Transport msg))"

definition write_all :: "u8 list \<Rightarrow> string \<Rightarrow> writer \<Rightarrow> (quelay_error + unit) \<times> writer" where
  "write_all bs msg w =
     (case wr_room w of
        None \<Rightarrow> (Inr (), w\<lparr>wr_bytes := wr_bytes w @ bs\<rparr>)
      | Some k \<Rightarrow>
          if length bs \<le> k
          then (Inr (), w\<lparr>wr_bytes := wr_bytes w @ bs, wr_room := Some (k - length bs)\<rparr>)
          else (Inl (Transport msg), w\<lparr>wr_bytes := wr_bytes w @ take k bs, wr_room := Some 0\<rparr>))"

section \<open>Constants and messages\<close>

definition MAGIC :: u8 where "MAGIC = 0x51"
definition VERSION :: u8 where "VERSION = 0x01"
definition OP_NEW_STREAM :: u8 where "OP_NEW_STREAM = 0x01"
definition OP_RECONNECT :: u8 where "OP_RECONNECT = 0x02"
definition FIXED_HEADER_LEN :: nat where "FIXED_HEADER_LEN = 8"
definition MAX_JSON_PAYLOAD :: nat where "MAX_JSON_PAYLOAD = 65535"
definition CHUNK_SIZE :: nat where "CHUNK_SIZE = 16 * 1024"
definition CHUNK_HEADER_LEN :: nat where "CHUNK_HEADER_LEN = 10"
definition ACK_INTERVAL :: nat where "ACK_INTERVAL = 64 * 1024"

lemmas framing_consts = MAGIC_def VERSION_def OP_NEW_STREAM_def OP_RECONNECT_def FIXED_HEADER_LEN_def
  MAX_JSON_PAYLOAD_def CHUNK_SIZE_def CHUNK_HEADER_LEN_def ACK_INTERVAL_def

record stream_header =
  sh_uuid :: uuid
  sh_priority :: u8
  sh_size_bytes :: "nat option"
  sh_attrs :: "string \<rightharpoonup> string"

record reconnect_header =
  rh_uuid :: uuid
  rh_replay_from :: nat

datatype stream_open = New stream_header | Reconnect reconnect_header

datatype wormhole_msg = Ack (bytes_received: nat) | Done | Error nat string

datatype chunk = Chunk (chunk_offset: nat) (chunk_payload: "u8 list")

section \<open>The fixed header\<close>

record fixed_header =
  fh_opcode :: u8
  fh_payload_len :: nat

definition fixed_header_parse :: "u8 list \<Rightarrow> quelay_error + fixed_header" where
  "fixed_header_parse buf =
     (if buf ! 0 \<noteq> MAGIC then Inl (Transport ''framing bad magic'')
      else if buf ! 1 \<noteq> VERSION then Inl (Transport ''framing unsupported version'')
      else let opcode = buf ! 2;
               payload_len = from_be_bytes [buf ! 4, buf ! 5, buf ! 6, buf ! 7]
           in if MAX_JSON_PAYLOAD < payload_len then Inl (Transport ''framing payload_len exceeds max'')
              else Inr \<lparr>fh_opcode = opcode, fh_payload_len = payload_len\<rparr>)"

definition fixed_header_bytes :: "fixed_header \<Rightarrow> u8 list" where
  "fixed_header_bytes h = [MAGIC, VERSION, fh_opcode h, 0] @ to_be_bytes 4 (fh_payload_len h)"

section \<open>Stream-open headers\<close>

definition write_connect_header ::
  "(stream_header \<Rightarrow> u8 list option) \<Rightarrow> stream_header \<Rightarrow> writer \<Rightarrow> (quelay_error + unit) \<times> writer" where
  "write_connect_header to_vec header w =
     (case to_vec header of
        None \<Rightarrow> (Inl (Transport ''framing serialize error''), w)
      | Some payload \<Rightarrow>
          if MAX_JSON_PAYLOAD < length payload then (Inl (Transport ''framing payload exceeds max''), w)
          else if u32_max < length payload then (Inl (Transport ''stream header payload exceeds 4 GiB''), w)
          else let fixed = [MAGIC, VERSION, OP_NEW_STREAM, 0] @ to_be_bytes 4 (length payload)
               in case write_all fixed ''framing write fixed header'' w of
                    (Inl e, w') \<Rightarrow> (Inl e, w')
                  | (Inr _, w') \<Rightarrow> write_all payload ''framing write payload'' w')"

definition write_reconnect_header ::
  "(reconnect_header \<Rightarrow> u8 list option) \<Rightarrow> reconnect_header \<Rightarrow> writer \<Rightarrow> (quelay_error + unit) \<times> writer" where
  "write_reconnect_header to_vec header w =
     (case to_vec header of
        None \<Rightarrow> (Inl (Transport ''framing serialize error''), w)
      | Some payload \<Rightarrow>
          if MAX_JSON_PAYLOAD < length payload then (Inl (Transport ''framing payload exceeds max''), w)
          else if u32_max < length payload then (Inl (Transport ''reconnect header payload exceeds 4 GiB''), w)
          else let fixed = [MAGIC, VERSION, OP_RECONNECT, 0] @ to_be_bytes 4 (length payload)
               in case write_all fixed ''framing write fixed header'' w of
                    (Inl e, w') \<Rightarrow> (Inl e, w')
                  | (Inr _, w') \<Rightarrow> write_all payload ''framing write payload'' w')"

definition read_stream_open ::
  "(u8 list \<Rightarrow> stream_header option) \<Rightarrow> (u8 list \<Rightarrow> reconnect_header option) \<Rightarrow>
     reader \<Rightarrow> quelay_error + stream_open \<times> reader" where
  "read_stream_open from_new from_reconnect r =
     (case read_exact FIXED_HEADER_LEN ''framing read fixed header'' r of
        Inl e \<Rightarrow> Inl e
      | Inr (fixed, r1) \<Rightarrow>
        case fixed_header_parse fixed of
          Inl e \<Rightarrow> Inl e
        | Inr header \<Rightarrow>
          if MAX_JSON_PAYLOAD < fh_payload_len header then Inl (Transport ''framing payload_len exceeds max'')
          else case read_exact (fh_payload_len header) ''framing read payload'' r1 of
            Inl e \<Rightarrow> Inl e
          | Inr (payload, r2) \<Rightarrow>
            if fh_opcode header = OP_NEW_STREAM
            then (case from_new payload of
                    None \<Rightarrow> Inl (Transport ''framing deserialize error'')
                  | Some h \<Rightarrow> Inr (New h, r2))
            else if fh_opcode header = OP_RECONNECT
            then (case from_reconnect payload of
                    None \<Rightarrow> Inl (Transport ''framing deserialize error'')
                  | Some h \<Rightarrow> Inr (Reconnect h, r2))
            else Inl (Transport ''framing unknown opcode''))"

section \<open>Feedback messages\<close>

definition write_wormhole_msg ::
  "(wormhole_msg \<Rightarrow> u8 list option) \<Rightarrow> wormhole_msg \<Rightarrow> writer \<Rightarrow> (quelay_error + unit) \<times> writer" where
  "write_wormhole_msg to_vec msg w =
     (case to_vec msg of
        None \<Rightarrow> (Inl (Transport ''wormhole serialize error''), w)
      | Some payload \<Rightarrow>
          if MAX_JSON_PAYLOAD < length payload then (Inl (Transport ''wormhole payload exceeds max''), w)
          else if u32_max < length payload then (Inl (Transport ''wormhole payload exceeds 4 GiB''), w)
          else let header = \<lparr>fh_opcode = OP_NEW_STREAM, fh_payload_len = length payload\<rparr>;
                   fixed = fixed_header_bytes header
               in case write_all fixed ''wormhole write fixed header'' w of
                    (Inl e, w') \<Rightarrow> (Inl e, w')
                  | (Inr _, w') \<Rightarrow> write_all payload ''wormhole write payload'' w')"

definition read_wormhole_msg ::
  "(u8 list \<Rightarrow> wormhole_msg option) \<Rightarrow> reader \<Rightarrow> quelay_error + wormhole_msg \<times> reader" where
  "read_wormhole_msg from_slice r =
     (case read_exact FIXED_HEADER_LEN ''wormhole read fixed header'' r of
        Inl e \<Rightarrow> Inl e
      | Inr (fixed, r1) \<Rightarrow>
        case fixed_header_parse fixed of
          Inl e \<Rightarrow> Inl e
        | Inr header \<Rightarrow>
          let payload_len = fh_payload_len header
          in if MAX_JSON_PAYLOAD < payload_len then Inl (Transport ''wormhole payload_len exceeds max'')
             else case read_exact payload_len ''wormhole read payload'' r1 of
               Inl e \<Rightarrow> Inl e
             | Inr (payload, r2) \<Rightarrow>
               (case from_slice payload of
                  None \<Rightarrow> Inl (Transport ''wormhole deserialize error'')
                | Some msg \<Rightarrow> Inr (msg, r2)))"

section \<open>Chunks\<close>

definition write_chunk :: "nat \<Rightarrow> u8 list \<Rightarrow> writer \<Rightarrow> (quelay_error + unit) \<times> writer" where
  "write_chunk offset pl w =
     (if 65535 < length pl then (Inl (Transport ''chunk payload exceeds 65535 bytes''), w)
      else let hdr = to_be_bytes 8 offset @ to_be_bytes 2 (length pl)
           in case write_all hdr ''chunk write header'' w of
                (Inl e, w') \<Rightarrow> (Inl e, w')
              | (Inr _, w') \<Rightarrow> write_all pl ''chunk write payload'' w')"

definition encode_chunk :: "nat \<Rightarrow> u8 list \<Rightarrow> u8 list" where
  "encode_chunk offset pl = to_be_bytes 8 offset @ to_be_bytes 2 (as_u16 (length pl)) @ pl"

definition read_chunk :: "reader \<Rightarrow> quelay_error + chunk option \<times> reader" where
  "read_chunk r =
     (case rd_bytes r of
        [] \<Rightarrow> if rd_fin r then Inr (None, r) else Inl (Transport ''chunk read header[0]'')
      | b # bs \<Rightarrow>
        case read_exact (CHUNK_HEADER_LEN - 1) ''chunk read header[1..]'' (r\<lparr>rd_bytes := bs\<rparr>) of
          Inl e \<Rightarrow> Inl e
        | Inr (hdr', r1) \<Rightarrow>
          let hdr = b # hdr';
              offset = from_be_bytes (take 8 hdr);
              payload_len = from_be_bytes [hdr ! 8, hdr ! 9]
          in if CHUNK_SIZE < payload_len then Inl (Transport ''chunk payload_len exceeds CHUNK_SIZE'')
             else case read_exact payload_len ''chunk read payload'' r1 of
               Inl e \<Rightarrow> Inl e
             | Inr (pl, r2) \<Rightarrow> Inr (Some (Chunk offset pl), r2))"


section \<open>Reading what was written\<close>

lemma length_4:
  assumes "length xs = 4"
  obtains a b c d where "xs = [a, b, c, d]"
  using assms that by (auto simp: numeral_eq_Suc length_Suc_conv)

lemma fixed_header_parse_bytes:
  assumes "n \<le> MAX_JSON_PAYLOAD"
  shows "fixed_header_parse ([MAGIC, VERSION, op, z] @ to_be_bytes 4 n) = Inr \<lparr>fh_opcode = op, fh_payload_len = n\<rparr>"
proof -
  have n: "from_be_bytes (to_be_bytes 4 n) = n" using assms by (simp add: from_to_be_bytes MAX_JSON_PAYLOAD_def)
  obtain a b c d where bs: "to_be_bytes 4 n = [a, b, c, d]" by (rule length_4 [of "to_be_bytes 4 n"]) simp
  then show ?thesis using assms n by (simp add: fixed_header_parse_def)
qed

text \<open>Everything \<open>fixed_header_parse\<close> accepts.\<close>

lemma fixed_header_parse_ok:
  assumes "length buf = FIXED_HEADER_LEN" and "fixed_header_parse buf = Inr h"
  shows "\<exists>z. buf = [MAGIC, VERSION, fh_opcode h, z] @ to_be_bytes 4 (fh_payload_len h)"
    and "fh_payload_len h \<le> MAX_JSON_PAYLOAD"
proof -
  from assms(1) obtain a b c d e f g i where buf: "buf = [a, b, c, d, e, f, g, i]"
    by (auto simp: FIXED_HEADER_LEN_def numeral_eq_Suc length_Suc_conv)
  from assms(2) have eq: "a = MAGIC" "b = VERSION" "fh_opcode h = c" "fh_payload_len h = from_be_bytes [e, f, g, i]"
    "fh_payload_len h \<le> MAX_JSON_PAYLOAD"
    unfolding buf fixed_header_parse_def by (auto simp: Let_def split: if_splits)
  have "to_be_bytes 4 (from_be_bytes [e, f, g, i]) = [e, f, g, i]"
  proof -
    have "length [e, f, g, i] = 4" by simp
    then show ?thesis by (metis to_from_be_bytes)
  qed
  with eq buf show "\<exists>z. buf = [MAGIC, VERSION, fh_opcode h, z] @ to_be_bytes 4 (fh_payload_len h)" by simp
  from eq show "fh_payload_len h \<le> MAX_JSON_PAYLOAD" by simp
qed

lemma read_exact_append [simp]:
  "length xs = n \<Longrightarrow> read_exact n msg \<lparr>rd_bytes = xs @ ys, rd_fin = f\<rparr> = Inr (xs, \<lparr>rd_bytes = ys, rd_fin = f\<rparr>)"
  by (auto simp: read_exact_def)

lemma read_exact_short: "length xs < n \<Longrightarrow> read_exact n msg \<lparr>rd_bytes = xs, rd_fin = f\<rparr> = Inl (Transport msg)"
  by (simp add: read_exact_def)

lemma read_exact_Inr:
  "read_exact n msg r = Inr (xs, r') \<longleftrightarrow>
     n \<le> length (rd_bytes r) \<and> xs = take n (rd_bytes r) \<and> r' = r\<lparr>rd_bytes := drop n (rd_bytes r)\<rparr>"
  by (auto simp: read_exact_def)

text \<open>The frame both headers and feedback messages use.\<close>

definition json_frame :: "u8 \<Rightarrow> u8 list \<Rightarrow> u8 list" where
  "json_frame op json = [MAGIC, VERSION, op, 0] @ to_be_bytes 4 (length json) @ json"

lemma length_json_frame [simp]: "length (json_frame op json) = FIXED_HEADER_LEN + length json"
  by (simp add: json_frame_def FIXED_HEADER_LEN_def)

lemma fixed_header_parse_frame [simp]:
  "length json \<le> MAX_JSON_PAYLOAD \<Longrightarrow>
     fixed_header_parse (take FIXED_HEADER_LEN (json_frame op json @ rest)) =
       Inr \<lparr>fh_opcode = op, fh_payload_len = length json\<rparr>"
  using fixed_header_parse_bytes [of "length json" op 0] by (simp add: json_frame_def FIXED_HEADER_LEN_def)

lemma read_frame_header:
  "read_exact FIXED_HEADER_LEN msg \<lparr>rd_bytes = json_frame op json @ rest, rd_fin = f\<rparr> =
     Inr ([MAGIC, VERSION, op, 0] @ to_be_bytes 4 (length json), \<lparr>rd_bytes = json @ rest, rd_fin = f\<rparr>)"
  by (simp add: json_frame_def read_exact_def FIXED_HEADER_LEN_def)

lemma read_stream_open_frame:
  assumes "length json \<le> MAX_JSON_PAYLOAD"
  shows "read_stream_open fn fr \<lparr>rd_bytes = json_frame op json @ rest, rd_fin = f\<rparr> =
    (if op = OP_NEW_STREAM
     then (case fn json of None \<Rightarrow> Inl (Transport ''framing deserialize error'')
           | Some h \<Rightarrow> Inr (New h, \<lparr>rd_bytes = rest, rd_fin = f\<rparr>))
     else if op = OP_RECONNECT
     then (case fr json of None \<Rightarrow> Inl (Transport ''framing deserialize error'')
           | Some h \<Rightarrow> Inr (Reconnect h, \<lparr>rd_bytes = rest, rd_fin = f\<rparr>))
     else Inl (Transport ''framing unknown opcode''))"
  using assms fixed_header_parse_bytes [OF assms, of op 0]
  by (simp add: read_stream_open_def read_frame_header)

lemma read_wormhole_msg_frame:
  assumes "length json \<le> MAX_JSON_PAYLOAD"
  shows "read_wormhole_msg de \<lparr>rd_bytes = json_frame op json @ rest, rd_fin = f\<rparr> =
    (case de json of None \<Rightarrow> Inl (Transport ''wormhole deserialize error'')
     | Some m \<Rightarrow> Inr (m, \<lparr>rd_bytes = rest, rd_fin = f\<rparr>))"
  using assms fixed_header_parse_bytes [OF assms, of op 0]
  by (simp add: read_wormhole_msg_def read_frame_header Let_def)

text \<open>A frame that was cut short is never taken for a message, whatever the cut.\<close>

lemma read_exact_cut:
  assumes "n < length (json_frame op json)"
  obtains "read_exact FIXED_HEADER_LEN msg \<lparr>rd_bytes = take n (json_frame op json), rd_fin = f\<rparr> = Inl (Transport msg)"
  | "read_exact FIXED_HEADER_LEN msg \<lparr>rd_bytes = take n (json_frame op json), rd_fin = f\<rparr> =
       Inr ([MAGIC, VERSION, op, 0] @ to_be_bytes 4 (length json), \<lparr>rd_bytes = take (n - 8) json, rd_fin = f\<rparr>)"
    "length (take (n - 8) json) < length json"
proof -
  define xs where "xs = [MAGIC, VERSION, op, 0] @ to_be_bytes 4 (length json)"
  have xs: "json_frame op json = xs @ json" "length xs = 8" by (simp_all add: xs_def json_frame_def)
  have "FIXED_HEADER_LEN = 8" by (simp add: FIXED_HEADER_LEN_def)
  then show ?thesis using that assms unfolding xs_def [symmetric]
    by (cases "n < 8") (auto simp: read_exact_def xs)
qed

lemma read_stream_open_cut:
  assumes json: "length json \<le> MAX_JSON_PAYLOAD" and cut: "n < length (json_frame op json)"
  shows "\<exists>e. read_stream_open fn fr \<lparr>rd_bytes = take n (json_frame op json), rd_fin = f\<rparr> = Inl e"
  using fixed_header_parse_bytes [OF json, of op 0] json
  by (rule_tac read_exact_cut [OF cut, of "''framing read fixed header''" f])
     (auto simp: read_stream_open_def read_exact_short)

lemma read_wormhole_msg_cut:
  assumes json: "length json \<le> MAX_JSON_PAYLOAD" and cut: "n < length (json_frame op json)"
  shows "\<exists>e. read_wormhole_msg de \<lparr>rd_bytes = take n (json_frame op json), rd_fin = f\<rparr> = Inl e"
  using fixed_header_parse_bytes [OF json, of op 0] json
  by (rule_tac read_exact_cut [OF cut, of "''wormhole read fixed header''" f])
     (auto simp: read_wormhole_msg_def read_exact_short Let_def)

section \<open>What a write leaves on the wire\<close>

lemma write_all_cases:
  obtains (all) w' where "write_all bs msg w = (Inr (), w')" "wr_bytes w' = wr_bytes w @ bs"
  | (part) w' n where "write_all bs msg w = (Inl (Transport msg), w')" "n < length bs"
      "wr_bytes w' = wr_bytes w @ take n bs"
proof (cases "wr_room w")
  case None
  then show ?thesis using all by (simp add: write_all_def)
next
  case (Some k)
  then show ?thesis using all part [of _ k] by (cases "length bs \<le> k") (auto simp: write_all_def)
qed

definition write_two :: "u8 list \<Rightarrow> string \<Rightarrow> u8 list \<Rightarrow> string \<Rightarrow> writer \<Rightarrow> (quelay_error + unit) \<times> writer" where
  "write_two xs m1 ys m2 w =
     (case write_all xs m1 w of (Inl e, w') \<Rightarrow> (Inl e, w') | (Inr _, w') \<Rightarrow> write_all ys m2 w')"

lemma write_two_result:
  assumes "write_two xs m1 ys m2 w = (res, w')"
  shows "case res of
     Inr _ \<Rightarrow> wr_bytes w' = wr_bytes w @ xs @ ys
   | Inl e \<Rightarrow> \<exists>n < length (xs @ ys). wr_bytes w' = wr_bytes w @ take n (xs @ ys)"
proof (rule write_all_cases [of xs m1 w])
  fix w1 assume x: "write_all xs m1 w = (Inr (), w1)" "wr_bytes w1 = wr_bytes w @ xs"
  show ?thesis
  proof (rule write_all_cases [of ys m2 w1])
    fix w2 n assume y: "write_all ys m2 w1 = (Inl (Transport m2), w2)" "n < length ys"
      "wr_bytes w2 = wr_bytes w1 @ take n ys"
    then have "length xs + n < length (xs @ ys) \<and> wr_bytes w2 = wr_bytes w @ take (length xs + n) (xs @ ys)"
      using x by simp
    then have "\<exists>n < length (xs @ ys). wr_bytes w2 = wr_bytes w @ take n (xs @ ys)" by blast
    then show ?thesis using assms x(1) y(1) by (auto simp: write_two_def simp del: take_append)
  qed (use assms x in \<open>auto simp: write_two_def\<close>)
next
  fix w1 n assume x: "write_all xs m1 w = (Inl (Transport m1), w1)" "n < length xs" "wr_bytes w1 = wr_bytes w @ take n xs"
  then have "n < length (xs @ ys) \<and> wr_bytes w1 = wr_bytes w @ take n (xs @ ys)" by simp
  then have "\<exists>n < length (xs @ ys). wr_bytes w1 = wr_bytes w @ take n (xs @ ys)" by blast
  then show ?thesis using assms x(1) by (auto simp: write_two_def simp del: take_append)
qed

lemma json_frame_two: "json_frame op json = ([MAGIC, VERSION, op, 0] @ to_be_bytes 4 (length json)) @ json"
  by (simp add: json_frame_def)

lemma write_connect_header_two:
  "write_connect_header to_vec h w = (Inr (), w') \<Longrightarrow>
     \<exists>json. to_vec h = Some json \<and> length json \<le> MAX_JSON_PAYLOAD \<and> wr_bytes w' = wr_bytes w @ json_frame OP_NEW_STREAM json"
  unfolding json_frame_two
  by (auto simp: write_connect_header_def Let_def write_two_def [symmetric] split: option.splits if_splits
      dest!: write_two_result)

lemma write_reconnect_header_two:
  "write_reconnect_header to_vec h w = (Inr (), w') \<Longrightarrow>
     \<exists>json. to_vec h = Some json \<and> length json \<le> MAX_JSON_PAYLOAD \<and> wr_bytes w' = wr_bytes w @ json_frame OP_RECONNECT json"
  unfolding json_frame_two
  by (auto simp: write_reconnect_header_def Let_def write_two_def [symmetric] split: option.splits if_splits
      dest!: write_two_result)

lemma write_wormhole_msg_two:
  "write_wormhole_msg to_vec m w = (Inr (), w') \<Longrightarrow>
     \<exists>json. to_vec m = Some json \<and> length json \<le> MAX_JSON_PAYLOAD \<and> wr_bytes w' = wr_bytes w @ json_frame OP_NEW_STREAM json"
  unfolding json_frame_two
  by (auto simp: write_wormhole_msg_def fixed_header_bytes_def Let_def write_two_def [symmetric] split: option.splits if_splits
      dest!: write_two_result)

text \<open>A write that failed put nothing on the wire, or a frame that was cut short.\<close>

definition cut_frame :: "u8 \<Rightarrow> u8 list \<Rightarrow> bool" where
  "cut_frame op bs \<longleftrightarrow> (\<exists>json n. length json \<le> MAX_JSON_PAYLOAD \<and> n < length (json_frame op json) \<and>
     bs = take n (json_frame op json))"

lemma cut_frame_empty: "cut_frame op []"
  unfolding cut_frame_def by (intro exI [of _ "[]"] exI [of _ 0]) (simp add: FIXED_HEADER_LEN_def)

lemma write_two_cut:
  assumes "write_two ([MAGIC, VERSION, op, 0] @ to_be_bytes 4 (length json)) m1 json m2 w = (Inl e, w')"
    and "length json \<le> MAX_JSON_PAYLOAD"
  shows "\<exists>bs. wr_bytes w' = wr_bytes w @ bs \<and> cut_frame op bs"
  using write_two_result [OF assms(1)] assms(2) unfolding json_frame_two [symmetric] cut_frame_def by auto

lemma write_connect_header_cut:
  "write_connect_header to_vec h w = (Inl e, w') \<Longrightarrow> \<exists>bs. wr_bytes w' = wr_bytes w @ bs \<and> cut_frame OP_NEW_STREAM bs"
  using cut_frame_empty
  by (auto simp: write_connect_header_def Let_def write_two_def [symmetric] split: option.splits if_splits
      dest!: write_two_cut [simplified])

lemma write_reconnect_header_cut:
  "write_reconnect_header to_vec h w = (Inl e, w') \<Longrightarrow> \<exists>bs. wr_bytes w' = wr_bytes w @ bs \<and> cut_frame OP_RECONNECT bs"
  using cut_frame_empty
  by (auto simp: write_reconnect_header_def Let_def write_two_def [symmetric] split: option.splits if_splits
      dest!: write_two_cut [simplified])

lemma write_wormhole_msg_cut:
  "write_wormhole_msg to_vec h w = (Inl e, w') \<Longrightarrow> \<exists>bs. wr_bytes w' = wr_bytes w @ bs \<and> cut_frame OP_NEW_STREAM bs"
  using cut_frame_empty
  by (auto simp: write_wormhole_msg_def fixed_header_bytes_def Let_def write_two_def [symmetric] split: option.splits if_splits
      dest!: write_two_cut [simplified])

lemma cut_frame_rejected:
  assumes "cut_frame op bs"
  shows "\<exists>e. read_stream_open fn fr \<lparr>rd_bytes = bs, rd_fin = f\<rparr> = Inl e"
    and "\<exists>e. read_wormhole_msg de \<lparr>rd_bytes = bs, rd_fin = f\<rparr> = Inl e"
  using assms read_stream_open_cut read_wormhole_msg_cut unfolding cut_frame_def by blast+


section \<open>Properties of the header framing\<close>

text \<open>C16 (roundtrip): a stream-open header that was written is read back: \<open>read_stream_open\<close> returns
  the same header under the right opcode and consumes exactly its frame, whatever data follows.
  Assumed of serde_json: decoding inverts encoding.\<close>

theorem stream_open_roundtrip:
  assumes "\<And>h json. to_new h = Some json \<Longrightarrow> from_new json = Some h"
    and "\<And>h json. to_rec h = Some json \<Longrightarrow> from_rec json = Some h"
  shows "(write_connect_header to_new h w = (Inr (), w') \<longrightarrow>
      (\<exists>frame. wr_bytes w' = wr_bytes w @ frame \<and>
        (\<forall>rest f. read_stream_open from_new from_rec \<lparr>rd_bytes = frame @ rest, rd_fin = f\<rparr> =
           Inr (New h, \<lparr>rd_bytes = rest, rd_fin = f\<rparr>)))) \<and>
     (write_reconnect_header to_rec k w = (Inr (), w') \<longrightarrow>
      (\<exists>frame. wr_bytes w' = wr_bytes w @ frame \<and>
        (\<forall>rest f. read_stream_open from_new from_rec \<lparr>rd_bytes = frame @ rest, rd_fin = f\<rparr> =
           Inr (Reconnect k, \<lparr>rd_bytes = rest, rd_fin = f\<rparr>))))"
  using assms
  by (auto dest!: write_connect_header_two write_reconnect_header_two
      simp: read_stream_open_frame OP_NEW_STREAM_def OP_RECONNECT_def)

text \<open>A JSON encoder that knows one header, for the witnesses.\<close>

definition demo_header :: stream_header where
  "demo_header = \<lparr>sh_uuid = 7, sh_priority = 64, sh_size_bytes = Some 1048576, sh_attrs = Map.empty\<rparr>"

definition demo_to_new :: "stream_header \<Rightarrow> u8 list option" where
  "demo_to_new h = (if h = demo_header then Some [0x7B, 0x7D] else None)"

theorem stream_open_roundtrip_witness:
  "(\<exists>w'. write_connect_header demo_to_new demo_header \<lparr>wr_bytes = [], wr_room = None\<rparr> = (Inr (), w') \<and>
     read_stream_open (\<lambda>_. Some demo_header) (\<lambda>_. None) \<lparr>rd_bytes = wr_bytes w' @ [1, 2, 3], rd_fin = True\<rparr> =
       Inr (New demo_header, \<lparr>rd_bytes = [1, 2, 3], rd_fin = True\<rparr>))"
proof -
  have inv: "Some demo_header = Some h" if "demo_to_new h = Some json" for h json
    using that by (auto simp: demo_to_new_def split: if_splits)
  obtain w' where w: "write_connect_header demo_to_new demo_header \<lparr>wr_bytes = [], wr_room = None\<rparr> = (Inr (), w')"
    by (simp add: write_connect_header_def demo_to_new_def MAX_JSON_PAYLOAD_def u32_max_def write_all_def)
  then have "\<exists>frame. wr_bytes w' = frame \<and> (\<forall>rest f. read_stream_open (\<lambda>_. Some demo_header) (\<lambda>_. None)
      \<lparr>rd_bytes = frame @ rest, rd_fin = f\<rparr> = Inr (New demo_header, \<lparr>rd_bytes = rest, rd_fin = f\<rparr>))"
    using stream_open_roundtrip [of demo_to_new "\<lambda>_. Some demo_header" "\<lambda>_. None" "\<lambda>_. None" demo_header
        "\<lparr>wr_bytes = [], wr_room = None\<rparr>" w', OF inv] by auto
  with w show ?thesis by blast
qed

text \<open>A feedback message that was written is read back and exactly its frame is
  consumed.\<close>

theorem wormhole_msg_roundtrip:
  assumes "\<And>m json. to_vec m = Some json \<Longrightarrow> from_slice json = Some m"
    and "write_wormhole_msg to_vec m w = (Inr (), w')"
  shows "\<exists>frame. wr_bytes w' = wr_bytes w @ frame \<and>
     (\<forall>rest f. read_wormhole_msg from_slice \<lparr>rd_bytes = frame @ rest, rd_fin = f\<rparr> =
        Inr (m, \<lparr>rd_bytes = rest, rd_fin = f\<rparr>))"
  using assms by (auto dest!: write_wormhole_msg_two simp: read_wormhole_msg_frame)

fun demo_to_msg :: "wormhole_msg \<Rightarrow> u8 list option" where
  "demo_to_msg (Ack n) = (if n \<le> u64_max then Some (to_be_bytes 8 n) else None)"
| "demo_to_msg Done = Some []"
| "demo_to_msg (Error c r) = None"

definition demo_from_msg :: "u8 list \<Rightarrow> wormhole_msg option" where
  "demo_from_msg bs = (if bs = [] then Some Done else Some (Ack (from_be_bytes bs)))"

lemma demo_msg_inverse: "demo_to_msg m = Some json \<Longrightarrow> demo_from_msg json = Some m"
proof (cases m)
  case (Ack n)
  assume j: "demo_to_msg m = Some json"
  then have json: "json = to_be_bytes 8 n" "n \<le> u64_max" using Ack by (auto split: if_splits)
  then have "json \<noteq> []" by (metis length_to_be_bytes list.size(3) numeral_eq_Suc old.nat.distinct(1))
  then show ?thesis using json Ack by (simp add: demo_from_msg_def from_to_be_bytes u64_max_def)
qed (auto simp: demo_from_msg_def)

theorem wormhole_msg_roundtrip_witness:
  "\<exists>w'. write_wormhole_msg demo_to_msg (Ack 65536) \<lparr>wr_bytes = [], wr_room = Some 100\<rparr> = (Inr (), w') \<and>
     read_wormhole_msg demo_from_msg \<lparr>rd_bytes = wr_bytes w' @ [9], rd_fin = False\<rparr> =
       Inr (Ack 65536, \<lparr>rd_bytes = [9], rd_fin = False\<rparr>)"
proof -
  obtain w' where w: "write_wormhole_msg demo_to_msg (Ack 65536) \<lparr>wr_bytes = [], wr_room = Some 100\<rparr> = (Inr (), w')"
    by (simp add: write_wormhole_msg_def MAX_JSON_PAYLOAD_def u32_max_def u64_max_def write_all_def fixed_header_bytes_def)
  then show ?thesis
    using wormhole_msg_roundtrip [of demo_to_msg demo_from_msg, OF demo_msg_inverse w] by auto
qed

text \<open>A write that fails part way never produces a message. What it left on the wire is
  a proper prefix of a frame, and both readers reject every such prefix, with or without a FIN
  behind it.\<close>

theorem failed_write_not_read:
  assumes "write_connect_header to_new h w = (Inl e, w') \<or> write_reconnect_header to_rec k w = (Inl e, w') \<or>
     write_wormhole_msg to_msg m w = (Inl e, w')"
  shows "\<exists>bs. wr_bytes w' = wr_bytes w @ bs \<and>
     (\<forall>fn fr f. \<exists>e'. read_stream_open fn fr \<lparr>rd_bytes = bs, rd_fin = f\<rparr> = Inl e') \<and>
     (\<forall>de f. \<exists>e'. read_wormhole_msg de \<lparr>rd_bytes = bs, rd_fin = f\<rparr> = Inl e')"
proof -
  obtain op bs where "wr_bytes w' = wr_bytes w @ bs" "cut_frame op bs"
    using assms write_connect_header_cut write_reconnect_header_cut write_wormhole_msg_cut by metis
  then show ?thesis using cut_frame_rejected by blast
qed

theorem failed_write_not_read_witness:
  "\<exists>e w'. write_connect_header demo_to_new demo_header \<lparr>wr_bytes = [], wr_room = Some 9\<rparr> = (Inl e, w') \<and>
     length (wr_bytes w') = 9 \<and>
     (\<exists>e'. read_stream_open (\<lambda>_. Some demo_header) (\<lambda>_. None) \<lparr>rd_bytes = wr_bytes w', rd_fin = True\<rparr> = Inl e')"
proof -
  obtain e w' where w: "write_connect_header demo_to_new demo_header \<lparr>wr_bytes = [], wr_room = Some 9\<rparr> = (Inl e, w')"
    "length (wr_bytes w') = 9"
    by (simp add: write_connect_header_def demo_to_new_def MAX_JSON_PAYLOAD_def u32_max_def write_all_def)
  then show ?thesis
    using failed_write_not_read [OF disjI1 [OF w(1)]] by auto
qed



section \<open>Chunk framing as a codec\<close>

text \<open>The read loop over a chunk decoder: the chunks read until the end of the stream or an error,
  and how it ended. The fuel bounds the number of reads.\<close>

fun read_chunks :: "(reader \<Rightarrow> quelay_error + chunk option \<times> reader) \<Rightarrow> nat \<Rightarrow> reader \<Rightarrow>
    chunk list \<times> (quelay_error + unit) option" where
  "read_chunks dec 0 r = ([], None)"
| "read_chunks dec (Suc fuel) r =
     (case dec r of
        Inl e \<Rightarrow> ([], Some (Inl e))
      | Inr (None, r') \<Rightarrow> ([], Some (Inr ()))
      | Inr (Some c, r') \<Rightarrow> (let (cs, res) = read_chunks dec fuel r' in (c # cs, res)))"

definition chunk_fits :: "chunk \<Rightarrow> bool" where
  "chunk_fits c \<longleftrightarrow> chunk_offset c \<le> u64_max \<and> length (chunk_payload c) \<le> CHUNK_SIZE"

definition enc_all :: "(nat \<Rightarrow> u8 list \<Rightarrow> u8 list) \<Rightarrow> chunk list \<Rightarrow> u8 list" where
  "enc_all enc cs = concat (map (\<lambda>c. enc (chunk_offset c) (chunk_payload c)) cs)"

lemma enc_all_simps [simp]: "enc_all enc [] = []"
  "enc_all enc (c # cs) = enc (chunk_offset c) (chunk_payload c) @ enc_all enc cs"
  by (simp_all add: enc_all_def)

text \<open>What the pump and the downlink need of chunk framing: a chunk that fits is read back and
  exactly its bytes are consumed, a frame that is cut short is an error, and the end of the
  stream is \<open>None\<close> only after a FIN.\<close>

locale chunk_codec =
  fixes enc :: "nat \<Rightarrow> u8 list \<Rightarrow> u8 list"
    and dec :: "reader \<Rightarrow> quelay_error + chunk option \<times> reader"
  assumes dec_enc: "off \<le> u64_max \<Longrightarrow> length pl \<le> CHUNK_SIZE \<Longrightarrow>
      dec \<lparr>rd_bytes = enc off pl @ rest, rd_fin = f\<rparr> = Inr (Some (Chunk off pl), \<lparr>rd_bytes = rest, rd_fin = f\<rparr>)"
    and dec_cut: "off \<le> u64_max \<Longrightarrow> length pl \<le> CHUNK_SIZE \<Longrightarrow> 0 < n \<Longrightarrow> n < length (enc off pl) \<Longrightarrow>
      \<exists>e. dec \<lparr>rd_bytes = take n (enc off pl), rd_fin = f\<rparr> = Inl e"
    and dec_end: "dec \<lparr>rd_bytes = [], rd_fin = True\<rparr> = Inr (None, \<lparr>rd_bytes = [], rd_fin = True\<rparr>)"
      "\<exists>e. dec \<lparr>rd_bytes = [], rd_fin = False\<rparr> = Inl e"
    and enc_nonempty: "length pl \<le> CHUNK_SIZE \<Longrightarrow> enc off pl \<noteq> []"
begin

lemma read_chunks_enc_all:
  "\<forall>c \<in> set cs. chunk_fits c \<Longrightarrow> length cs < fuel \<Longrightarrow>
     read_chunks dec fuel \<lparr>rd_bytes = enc_all enc cs, rd_fin = True\<rparr> = (cs, Some (Inr ()))"
proof (induction cs arbitrary: fuel)
  case Nil
  then obtain k where "fuel = Suc k" by (cases fuel) auto
  then show ?case by (simp add: dec_end)
next
  case (Cons c cs)
  then obtain k where k: "fuel = Suc k" by (cases fuel) auto
  from Cons.prems have "dec \<lparr>rd_bytes = enc_all enc (c # cs), rd_fin = True\<rparr> = Inr (Some c, \<lparr>rd_bytes = enc_all enc cs, rd_fin = True\<rparr>)"
    by (simp add: dec_enc chunk_fits_def)
  with Cons k show ?case by simp
qed

text \<open>A connection that breaks after n bytes yields the chunks that were wholly received and then
  an error, never a chunk that was not sent and never a normal end.\<close>

lemma read_chunks_cut:
  "\<forall>c \<in> set cs. chunk_fits c \<Longrightarrow> length cs < fuel \<Longrightarrow>
     \<exists>k e. read_chunks dec fuel \<lparr>rd_bytes = take n (enc_all enc cs), rd_fin = False\<rparr> = (take k cs, Some (Inl e)) \<and>
       length (enc_all enc (take k cs)) \<le> n \<and> k \<le> length cs \<and> (k < length cs \<longrightarrow> n < length (enc_all enc (take (Suc k) cs)))"
proof (induction cs arbitrary: fuel n)
  case Nil
  then obtain k where "fuel = Suc k" by (cases fuel) auto
  then show ?case using dec_end(2) by auto
next
  case (Cons c cs)
  then obtain k where k: "fuel = Suc k" by (cases fuel) auto
  let ?f = "enc (chunk_offset c) (chunk_payload c)"
  have c: "chunk_offset c \<le> u64_max" "length (chunk_payload c) \<le> CHUNK_SIZE" using Cons.prems by (auto simp: chunk_fits_def)
  consider "n = 0" | "0 < n" "n < length ?f" | "length ?f \<le> n" by linarith
  then show ?case
  proof cases
    case 1
    then show ?thesis using dec_end(2) k enc_nonempty [OF c(2)] by (auto intro!: exI [of _ 0])
  next
    case 2
    then obtain e where "dec \<lparr>rd_bytes = take n (enc_all enc (c # cs)), rd_fin = False\<rparr> = Inl e" using dec_cut [OF c 2] by auto
    with k 2 show ?thesis by (auto intro!: exI [of _ 0])
  next
    case 3
    then have d: "dec \<lparr>rd_bytes = take n (enc_all enc (c # cs)), rd_fin = False\<rparr> =
        Inr (Some c, \<lparr>rd_bytes = take (n - length ?f) (enc_all enc cs), rd_fin = False\<rparr>)"
      using dec_enc [OF c] by simp
    obtain j e where "read_chunks dec k \<lparr>rd_bytes = take (n - length ?f) (enc_all enc cs), rd_fin = False\<rparr> = (take j cs, Some (Inl e))"
      "length (enc_all enc (take j cs)) \<le> n - length ?f" "j \<le> length cs"
      "j < length cs \<longrightarrow> n - length ?f < length (enc_all enc (take (Suc j) cs))"
      using Cons.IH [of k "n - length ?f"] Cons.prems k by auto
    with d k 3 show ?thesis by (intro exI [of _ "Suc j"] exI [of _ e]) auto
  qed
qed

end

lemma length_2:
  assumes "length xs = 2"
  obtains a b where "xs = [a, b]"
  using assms that by (auto simp: numeral_eq_Suc length_Suc_conv)

lemma encode_chunk_header:
  assumes "length pl \<le> CHUNK_SIZE"
  obtains h a b where "encode_chunk off pl = h @ a # b # pl" "h = to_be_bytes 8 off" "from_be_bytes [a, b] = length pl"
proof -
  have small: "length pl < 65536" using assms by (simp add: CHUNK_SIZE_def)
  obtain a b where ab: "to_be_bytes 2 (length pl) = [a, b]" by (rule length_2 [of "to_be_bytes 2 (length pl)"]) simp
  moreover have "from_be_bytes (to_be_bytes 2 (length pl)) = length pl" using small by (simp add: from_to_be_bytes)
  ultimately show ?thesis using that [of "to_be_bytes 8 off" a b] small by (simp add: encode_chunk_def)
qed

text \<open>\<open>read_chunk\<close> on a non-empty stream reads the ten header bytes as one block.\<close>

lemma read_chunk_header:
  assumes "length h = 8"
  shows "read_chunk \<lparr>rd_bytes = h @ a # b # rest, rd_fin = f\<rparr> =
    (if CHUNK_SIZE < from_be_bytes [a, b] then Inl (Transport ''chunk payload_len exceeds CHUNK_SIZE'')
     else case read_exact (from_be_bytes [a, b]) ''chunk read payload'' \<lparr>rd_bytes = rest, rd_fin = f\<rparr> of
       Inl e \<Rightarrow> Inl e | Inr (pl, r2) \<Rightarrow> Inr (Some (Chunk (from_be_bytes h) pl), r2))"
proof -
  from assms obtain c cs where h: "h = c # cs" "length cs = 7" by (cases h) auto
  then show ?thesis by (simp add: read_chunk_def CHUNK_HEADER_LEN_def read_exact_def nth_append Let_def)
qed

lemma read_chunk_short:
  assumes "0 < length bs" "length bs < CHUNK_HEADER_LEN"
  shows "\<exists>e. read_chunk \<lparr>rd_bytes = bs, rd_fin = f\<rparr> = Inl e"
  using assms by (cases bs) (auto simp: read_chunk_def CHUNK_HEADER_LEN_def read_exact_def)

interpretation chunks: chunk_codec encode_chunk read_chunk
proof
  fix off :: nat and pl rest :: "u8 list" and f
  assume "off \<le> u64_max" and pl: "length pl \<le> CHUNK_SIZE"
  then have "from_be_bytes (to_be_bytes 8 off) = off" by (simp add: from_to_be_bytes u64_max_def)
  then show "read_chunk \<lparr>rd_bytes = encode_chunk off pl @ rest, rd_fin = f\<rparr> =
      Inr (Some (Chunk off pl), \<lparr>rd_bytes = rest, rd_fin = f\<rparr>)"
    by (rule_tac encode_chunk_header [OF pl, of off]) (use pl in \<open>simp add: read_chunk_header\<close>)
next
  fix off n :: nat and pl :: "u8 list" and f
  assume pl: "length pl \<le> CHUNK_SIZE" and n: "0 < n" "n < length (encode_chunk off pl)"
  obtain h a b where h: "encode_chunk off pl = h @ a # b # pl" "h = to_be_bytes 8 off" "from_be_bytes [a, b] = length pl"
    by (rule encode_chunk_header [OF pl, of off])
  then have l: "length h = 8" by simp
  show "\<exists>e. read_chunk \<lparr>rd_bytes = take n (encode_chunk off pl), rd_fin = f\<rparr> = Inl e"
  proof (cases "n < CHUNK_HEADER_LEN")
    case True
    then show ?thesis using n by (intro read_chunk_short) (auto simp: h l)
  next
    case False
    then obtain m where m: "n = 10 + m" by (metis CHUNK_HEADER_LEN_def le_Suc_ex not_less)
    have "encode_chunk off pl = (h @ [a, b]) @ pl" "length (h @ [a, b]) = 10" using h(1) l by simp_all
    then have "take n (encode_chunk off pl) = (h @ [a, b]) @ take m pl" "m < length pl" using n m by simp_all
    then have "take n (encode_chunk off pl) = h @ a # b # take m pl" "m < length pl" by simp_all
    then show ?thesis using read_chunk_header [OF l, of a b "take m pl" f] h(3) by (auto simp: read_exact_def)
  qed
next
  fix off :: nat and pl :: "u8 list"
  assume "length pl \<le> CHUNK_SIZE"
  then show "encode_chunk off pl \<noteq> []" by (rule_tac encode_chunk_header [of pl off]) auto
qed (simp_all add: read_chunk_def)

text \<open>\<open>write_chunk\<close> puts the same bytes on the wire, so it is an instance of the contract too.\<close>

definition written_chunk :: "nat \<Rightarrow> u8 list \<Rightarrow> u8 list" where
  "written_chunk off pl = wr_bytes (snd (write_chunk off pl \<lparr>wr_bytes = [], wr_room = None\<rparr>))"

lemma written_chunk_encode: "length pl \<le> CHUNK_SIZE \<Longrightarrow> written_chunk off pl = encode_chunk off pl"
  by (simp add: written_chunk_def write_chunk_def encode_chunk_def write_all_def CHUNK_SIZE_def)

interpretation written: chunk_codec written_chunk read_chunk
  by unfold_locales (simp_all add: written_chunk_encode chunks.dec_enc chunks.dec_cut chunks.dec_end chunks.enc_nonempty)

section \<open>Properties of the chunk framing\<close>

text \<open>C15 (roundtrip): a sequence of chunks of at most 16 KiB, encoded by the pump's \<open>encode_chunk\<close> and
  closed with a FIN, is read back chunk by chunk, offsets included, and ends normally.\<close>

theorem chunk_stream_roundtrip:
  assumes "\<forall>c \<in> set cs. chunk_fits c" and "length cs < fuel"
  shows "read_chunks read_chunk fuel \<lparr>rd_bytes = enc_all encode_chunk cs, rd_fin = True\<rparr> = (cs, Some (Inr ()))"
  using assms by (rule chunks.read_chunks_enc_all)

theorem chunk_stream_roundtrip_witness:
  "read_chunks read_chunk 3 \<lparr>rd_bytes = enc_all encode_chunk [Chunk 0 [1, 2], Chunk 2 [3]], rd_fin = True\<rparr> =
     ([Chunk 0 [1, 2], Chunk 2 [3]], Some (Inr ()))"
  by (rule chunk_stream_roundtrip) (simp_all add: chunk_fits_def CHUNK_SIZE_def u64_max_def)

text \<open>C27 (safety): when the connection breaks after any number n of bytes, the receiver gets the
  chunks that arrived whole, in order, and then an error: no chunk is cut, invented or taken for
  the end of the transfer.\<close>

theorem broken_stream_prefix:
  assumes "\<forall>c \<in> set cs. chunk_fits c" and "length cs < fuel"
  shows "\<exists>k e. read_chunks read_chunk fuel \<lparr>rd_bytes = take n (enc_all encode_chunk cs), rd_fin = False\<rparr> =
      (take k cs, Some (Inl e)) \<and> length (enc_all encode_chunk (take k cs)) \<le> n \<and>
      k \<le> length cs \<and> (k < length cs \<longrightarrow> n < length (enc_all encode_chunk (take (Suc k) cs)))"
  using assms by (rule chunks.read_chunks_cut)

theorem broken_stream_prefix_witness:
  "\<exists>k e. read_chunks read_chunk 3
       \<lparr>rd_bytes = take 15 (enc_all encode_chunk [Chunk 0 [1, 2], Chunk 2 [3]]), rd_fin = False\<rparr> =
     (take k [Chunk 0 [1, 2], Chunk 2 [3]], Some (Inl e)) \<and>
     length (enc_all encode_chunk (take k [Chunk 0 [1, 2], Chunk 2 [3]])) \<le> 15"
  using broken_stream_prefix [of "[Chunk 0 [1, 2], Chunk 2 [3]]" 3 15]
  by (auto simp: chunk_fits_def CHUNK_SIZE_def u64_max_def)

text \<open>C32 (bounds): the length field limits what each side can use. \<open>write_chunk\<close> refuses more than
  65535 bytes and otherwise writes what \<open>encode_chunk\<close> encodes, a payload between 16385 and 65535
  bytes is written but refused by \<open>read_chunk\<close>, and \<open>encode_chunk\<close>, which does not check, gives a
  64 KiB payload the length 0.\<close>

theorem chunk_length_limits:
  "(65535 < length pl \<longrightarrow> fst (write_chunk off pl w) = Inl (Transport ''chunk payload exceeds 65535 bytes'')) \<and>
   (length pl \<le> 65535 \<longrightarrow> written_chunk off pl = encode_chunk off pl) \<and>
   (CHUNK_SIZE < length pl \<and> length pl \<le> 65535 \<longrightarrow>
     read_chunk \<lparr>rd_bytes = written_chunk off pl, rd_fin = f\<rparr> = Inl (Transport ''chunk payload_len exceeds CHUNK_SIZE'')) \<and>
   (length pl = 65536 \<longrightarrow> read_chunk \<lparr>rd_bytes = encode_chunk off pl, rd_fin = f\<rparr> =
     Inr (Some (Chunk (off mod 2 ^ 64) []), \<lparr>rd_bytes = pl, rd_fin = f\<rparr>))"
proof (intro conjI impI; (elim conjE)?)
  show "65535 < length pl \<Longrightarrow> fst (write_chunk off pl w) = Inl (Transport ''chunk payload exceeds 65535 bytes'')"
    by (simp add: write_chunk_def)
  show w: "written_chunk off pl = encode_chunk off pl" if "length pl \<le> 65535"
    using that by (simp add: written_chunk_def write_chunk_def encode_chunk_def write_all_def)
  obtain a b where ab: "to_be_bytes 2 (as_u16 (length pl)) = [a, b]" by (rule length_2 [of "to_be_bytes 2 (as_u16 (length pl))"]) simp
  have len: "from_be_bytes [a, b] = length pl mod 65536"
    using arg_cong [OF ab, of from_be_bytes] by (simp add: from_to_be_bytes as_u16_def)
  have enc: "encode_chunk off pl = to_be_bytes 8 off @ a # b # pl" using ab by (simp add: encode_chunk_def)
  show "read_chunk \<lparr>rd_bytes = written_chunk off pl, rd_fin = f\<rparr> = Inl (Transport ''chunk payload_len exceeds CHUNK_SIZE'')"
    if "CHUNK_SIZE < length pl" "length pl \<le> 65535"
    using that w len by (simp add: enc read_chunk_header)
  show "read_chunk \<lparr>rd_bytes = encode_chunk off pl, rd_fin = f\<rparr> =
     Inr (Some (Chunk (off mod 2 ^ 64) []), \<lparr>rd_bytes = pl, rd_fin = f\<rparr>)" if "length pl = 65536"
    using that len by (simp add: enc read_chunk_header read_exact_def from_to_be_bytes)
qed

theorem chunk_length_limits_witness:
  "fst (write_chunk 0 (replicate 65536 0) \<lparr>wr_bytes = [], wr_room = None\<rparr>) = Inl (Transport ''chunk payload exceeds 65535 bytes'') \<and>
   read_chunk \<lparr>rd_bytes = written_chunk 0 (replicate 20000 0), rd_fin = False\<rparr> = Inl (Transport ''chunk payload_len exceeds CHUNK_SIZE'') \<and>
   read_chunk \<lparr>rd_bytes = encode_chunk 5 (replicate 65536 0), rd_fin = False\<rparr> =
     Inr (Some (Chunk 5 []), \<lparr>rd_bytes = replicate 65536 0, rd_fin = False\<rparr>)"
  using chunk_length_limits [of "replicate 65536 0" 0 "\<lparr>wr_bytes = [], wr_room = None\<rparr>" False]
    chunk_length_limits [of "replicate 65536 0" 5 "\<lparr>wr_bytes = [], wr_room = None\<rparr>" False]
    chunk_length_limits [of "replicate 20000 0" 0 "\<lparr>wr_bytes = [], wr_room = None\<rparr>" False]
  by (simp only: length_replicate) (auto simp: CHUNK_SIZE_def)

end
