(* ===== verification/Spool.thy ===== *)
theory Spool
  imports Framing
begin

text \<open>
  The spool between the TCP reader and the pump (\<open>SpoolBuffer\<close> of
  quelay-agent/src/active_stream.rs): the window [A, T) of the byte stream that the receiver has
  not acknowledged yet. The end of the stream is marked by setting T to \<open>u64::MAX\<close>.

  \<open>slice_from\<close> reads the two segments of a ring buffer; where the ring wraps is up to
  \<open>VecDeque\<close>, so the length of the first segment is an argument (\<open>split\<close>, any value). A slice index
  out of range panics: \<open>None\<close>. The locale \<open>byte_spool\<close> states what the uplink tasks need of the spool.
\<close>

section \<open>Operations\<close>

definition SPOOL_CAPACITY :: nat where
  "SPOOL_CAPACITY = 1024 * 1024"

record spool =
  sp_buf :: "u8 list"
  sp_bytes_acked :: nat
  sp_head :: nat

definition spool_new :: spool where
  "spool_new = \<lparr>sp_buf = [], sp_bytes_acked = 0, sp_head = 0\<rparr>"

definition available :: "spool \<Rightarrow> nat" where
  "available s = sub_u64 SPOOL_CAPACITY (length (sp_buf s))"

definition head_offset :: "spool \<Rightarrow> nat" where
  "head_offset s =
     (if sp_head s = u64_max then add_u64 (sp_bytes_acked s) (length (sp_buf s)) else sp_head s)"

definition push :: "u8 list \<Rightarrow> spool \<Rightarrow> spool" where
  "push data s = s\<lparr>sp_buf := sp_buf s @ data, sp_head := add_u64 (sp_head s) (length data)\<rparr>"

definition ack :: "nat \<Rightarrow> spool \<Rightarrow> spool" where
  "ack up_to s =
     (if up_to \<le> sp_bytes_acked s then s
      else let n = min (sub_u64 up_to (sp_bytes_acked s)) (length (sp_buf s))
           in s\<lparr>sp_buf := drop n (sp_buf s), sp_bytes_acked := add_u64 (sp_bytes_acked s) n\<rparr>)"

definition slice_from :: "nat \<Rightarrow> nat \<Rightarrow> spool \<Rightarrow> u8 list option" where
  "slice_from split from s =
     (let start = sub_u64 from (sp_bytes_acked s);
          first = take split (sp_buf s); second = drop split (sp_buf s)
      in if start < length first then Some (drop start first)
         else if start - length first \<le> length second then Some (drop (start - length first) second)
         else None)"

section \<open>The contract\<close>

text \<open>
  \<open>tail\<close> is A, \<open>top\<close> is T. The client of the spool thinks of one byte stream \<open>src\<close> of which the
  spool holds the window [A, T).
\<close>

locale byte_spool =
  fixes ok :: "'s \<Rightarrow> bool" and eof :: "'s \<Rightarrow> bool"
    and tail :: "'s \<Rightarrow> nat" and top :: "'s \<Rightarrow> nat" and room :: "'s \<Rightarrow> nat"
    and content :: "'s \<Rightarrow> u8 list"
    and put :: "u8 list \<Rightarrow> 's \<Rightarrow> 's" and free :: "nat \<Rightarrow> 's \<Rightarrow> 's"
    and get :: "nat \<Rightarrow> nat \<Rightarrow> 's \<Rightarrow> u8 list option"
  assumes content_length: "ok s \<Longrightarrow> tail s + length (content s) = top s"
    and put_ok: "ok s \<Longrightarrow> \<not> eof s \<Longrightarrow> length data \<le> room s \<Longrightarrow> top s + length data < u64_max \<Longrightarrow>
      ok (put data s) \<and> \<not> eof (put data s) \<and> content (put data s) = content s @ data \<and> tail (put data s) = tail s"
    and free_ok: "ok s \<Longrightarrow> up_to \<le> u64_max \<Longrightarrow> ok (free up_to s) \<and> eof (free up_to s) = eof s \<and>
      tail (free up_to s) = max (tail s) (min up_to (top s)) \<and>
      content (free up_to s) = drop (max (tail s) (min up_to (top s)) - tail s) (content s)"
    and get_ok: "ok s \<Longrightarrow> tail s \<le> q \<Longrightarrow> q \<le> top s \<Longrightarrow>
      \<exists>bs. get split q s = Some bs \<and> prefix bs (drop (q - tail s) (content s)) \<and> (q < top s \<longrightarrow> bs \<noteq> [])"
begin

definition stores :: "u8 list \<Rightarrow> 's \<Rightarrow> bool" where
  "stores src s \<longleftrightarrow> ok s \<and> top s \<le> length src \<and> content s = drop (tail s) (take (top s) src)"

lemma put_top: "ok s \<Longrightarrow> \<not> eof s \<Longrightarrow> length data \<le> room s \<Longrightarrow> top s + length data < u64_max \<Longrightarrow>
    top (put data s) = top s + length data"
  using content_length [of s] content_length [of "put data s"] put_ok [of s data] by simp

lemma free_top: "ok s \<Longrightarrow> up_to \<le> u64_max \<Longrightarrow> top (free up_to s) = top s"
  using content_length [of s] content_length [of "free up_to s"] free_ok [of s up_to] by simp

lemma put_stores:
  assumes s: "stores src s" and "\<not> eof s" "length data \<le> room s" "top s + length data < u64_max"
    and data: "prefix data (drop (top s) src)"
  shows "stores src (put data s)"
proof -
  have ok: "ok s" using s by (simp add: stores_def)
  note put = put_ok [OF ok assms(2-4)] put_top [OF ok assms(2-4)]
  from data obtain r where r: "drop (top s) src = data @ r" by (auto simp: prefix_def)
  then have "take (top s + length data) src = take (top s) src @ data"
    by (simp add: take_add)
  moreover have "tail s \<le> length (take (top s) src)" using s content_length [OF ok] by (auto simp: stores_def)
  moreover have "top s + length data \<le> length src"
    using s arg_cong [OF r, of length] by (auto simp: stores_def)
  ultimately show ?thesis using put s by (simp add: stores_def)
qed

lemma free_stores:
  assumes s: "stores src s" and "up_to \<le> u64_max"
  shows "stores src (free up_to s)"
proof -
  have ok: "ok s" using s by (simp add: stores_def)
  have "tail s \<le> top s" using content_length [OF ok] by simp
  then show ?thesis using s free_ok [OF ok assms(2)] free_top [OF ok assms(2)] by (auto simp: stores_def)
qed

lemma stores_extend: "stores src s \<Longrightarrow> stores (src @ zs) s"
  by (simp add: stores_def)

lemma put_stores_next:
  assumes "stores src s" "top s = length src" "\<not> eof s" "length data \<le> room s" "top s + length data < u64_max"
  shows "stores (src @ data) (put data s)" "top (put data s) = length (src @ data)"
  using put_stores [OF stores_extend [OF assms(1)] assms(3-5), of data] put_top [of s data] assms
  by (simp_all add: stores_def)

text \<open>The pump reads the bytes of the stream itself: a non-empty piece whenever Q is below T.\<close>

lemma get_stores:
  assumes s: "stores src s" and q: "tail s \<le> q" "q \<le> top s"
  shows "\<exists>bs. get split q s = Some bs \<and> prefix bs (drop q (take (top s) src)) \<and> (q < top s \<longrightarrow> bs \<noteq> [])"
proof -
  have "ok s" using s by (simp add: stores_def)
  then show ?thesis using get_ok [of s q split] s q by (auto simp: stores_def)
qed

end

section \<open>The spool satisfies it\<close>

definition spool_eof :: "spool \<Rightarrow> bool" where
  "spool_eof s \<longleftrightarrow> sp_head s = u64_max"

definition wf_spool :: "spool \<Rightarrow> bool" where
  "wf_spool s \<longleftrightarrow> length (sp_buf s) \<le> SPOOL_CAPACITY \<and> sp_bytes_acked s + length (sp_buf s) < u64_max \<and>
     (sp_head s = u64_max \<or> sp_head s = sp_bytes_acked s + length (sp_buf s))"

lemma head_offset_eq: "wf_spool s \<Longrightarrow> head_offset s = sp_bytes_acked s + length (sp_buf s)"
  by (auto simp: wf_spool_def head_offset_def)

lemma available_eq: "wf_spool s \<Longrightarrow> available s = SPOOL_CAPACITY - length (sp_buf s)"
  by (simp add: wf_spool_def available_def SPOOL_CAPACITY_def u64_max_def)

lemma slice_from_eq:
  assumes "wf_spool s" "sp_bytes_acked s \<le> q" "q \<le> head_offset s"
  shows "\<exists>bs. slice_from split q s = Some bs \<and> prefix bs (drop (q - sp_bytes_acked s) (sp_buf s)) \<and>
     (q < head_offset s \<longrightarrow> bs \<noteq> [])"
proof -
  have q: "sub_u64 q (sp_bytes_acked s) = q - sp_bytes_acked s" "q - sp_bytes_acked s \<le> length (sp_buf s)"
    "q < head_offset s \<longleftrightarrow> q - sp_bytes_acked s < length (sp_buf s)"
    using assms head_offset_eq [OF assms(1)] by (auto simp: wf_spool_def)
  define k where "k = q - sp_bytes_acked s"
  show ?thesis
  proof (cases "k < min split (length (sp_buf s))")
    case True
    then have "slice_from split q s = Some (drop k (take split (sp_buf s)))"
      using q by (simp add: slice_from_def k_def min.commute)
    moreover have "prefix (drop k (take split (sp_buf s))) (drop k (sp_buf s))"
      by (metis drop_take take_is_prefix)
    ultimately show ?thesis using True by (auto simp: k_def)
  next
    case False
    then have "slice_from split q s = Some (drop k (sp_buf s))"
      using q unfolding slice_from_def k_def [symmetric] by (auto simp: min_def add.commute split: if_splits)
    then show ?thesis using q by (auto simp: k_def)
  qed
qed

interpretation sp: byte_spool wf_spool spool_eof sp_bytes_acked head_offset available sp_buf push ack slice_from
proof
  fix s :: spool and data :: "u8 list" and up_to :: nat
  show "wf_spool s \<Longrightarrow> sp_bytes_acked s + length (sp_buf s) = head_offset s" by (simp add: head_offset_eq)
  show "wf_spool (push data s) \<and> \<not> spool_eof (push data s) \<and> sp_buf (push data s) = sp_buf s @ data \<and>
      sp_bytes_acked (push data s) = sp_bytes_acked s"
    if "wf_spool s" "\<not> spool_eof s" "length data \<le> available s" "head_offset s + length data < u64_max"
    using that available_eq [of s] head_offset_eq [of s]
    by (auto simp: wf_spool_def spool_eof_def push_def)
  show "wf_spool (ack up_to s) \<and> spool_eof (ack up_to s) = spool_eof s \<and>
      sp_bytes_acked (ack up_to s) = max (sp_bytes_acked s) (min up_to (head_offset s)) \<and>
      sp_buf (ack up_to s) = drop (max (sp_bytes_acked s) (min up_to (head_offset s)) - sp_bytes_acked s) (sp_buf s)"
    if wf: "wf_spool s" and u: "up_to \<le> u64_max"
  proof (cases "up_to \<le> sp_bytes_acked s")
    case True
    then show ?thesis using wf head_offset_eq [OF wf] by (auto simp: ack_def max_def)
  next
    case False
    then show ?thesis using wf u head_offset_eq [OF wf]
      by (auto simp: ack_def wf_spool_def spool_eof_def Let_def min_def max_def)
  qed
qed (rule slice_from_eq)


text \<open>Marking the end of the stream changes neither the window nor its bytes.\<close>

lemma spool_mark_eof:
  assumes "sp.stores src s"
  shows "sp.stores src (s\<lparr>sp_head := u64_max\<rparr>)" "head_offset (s\<lparr>sp_head := u64_max\<rparr>) = head_offset s"
proof -
  have wf: "wf_spool s" "wf_spool (s\<lparr>sp_head := u64_max\<rparr>)" using assms by (auto simp: sp.stores_def wf_spool_def)
  show h: "head_offset (s\<lparr>sp_head := u64_max\<rparr>) = head_offset s" using head_offset_eq [OF wf(1)] head_offset_eq [OF wf(2)] by simp
  show "sp.stores src (s\<lparr>sp_head := u64_max\<rparr>)" using assms h wf(2) by (simp add: sp.stores_def)
qed

section \<open>Properties\<close>

text \<open>A new spool is well-formed, and every operation keeps the invariant
  \<open>head - bytes_acked = buf.len() <= capacity\<close> the source documents: a push that fits, an
  acknowledgement of any value (also one below A or beyond T), and the end-of-stream mark.\<close>

theorem spool_invariant:
  "wf_spool spool_new \<and>
   (wf_spool s \<longrightarrow>
     (\<not> spool_eof s \<and> length data \<le> available s \<and> head_offset s + length data < u64_max \<longrightarrow> wf_spool (push data s)) \<and>
     (up_to \<le> u64_max \<longrightarrow> wf_spool (ack up_to s)) \<and>
     wf_spool (s\<lparr>sp_head := u64_max\<rparr>) \<and> head_offset (s\<lparr>sp_head := u64_max\<rparr>) = head_offset s)"
proof -
  have "wf_spool spool_new" by (simp add: wf_spool_def spool_new_def u64_max_def)
  moreover have "wf_spool (s\<lparr>sp_head := u64_max\<rparr>) \<and> head_offset (s\<lparr>sp_head := u64_max\<rparr>) = head_offset s" if "wf_spool s"
    using that head_offset_eq [of s] head_offset_eq [of "s\<lparr>sp_head := u64_max\<rparr>"] by (auto simp: wf_spool_def)
  ultimately show ?thesis using sp.put_ok sp.free_ok by blast
qed

theorem spool_invariant_witness:
  "wf_spool spool_new \<and> wf_spool (push [1, 2, 3] spool_new) \<and> wf_spool (ack 100 (push [1, 2, 3] spool_new))"
proof -
  have p: "wf_spool (push [1, 2, 3] spool_new)"
    using spool_invariant [of spool_new "[1, 2, 3]" 0]
    by (simp add: spool_new_def spool_eof_def available_def head_offset_def SPOOL_CAPACITY_def u64_max_def)
  then show ?thesis using spool_invariant [of "push [1, 2, 3] spool_new" "[]" 100] by (simp add: u64_max_def)
qed

text \<open>C8 (refinement): the spool refines a window on the byte stream. While it holds [A, T) of the
  stream, pushing the next bytes of the stream and freeing acknowledged bytes keep it so, T
  and A move as specified, and reading at any Q in [A, T] yields the stream's own bytes at Q, wherever the
  ring wraps, and at least one byte when Q is below T.\<close>

theorem spool_refines_stream:
  assumes "sp.stores src s"
  shows "(\<not> spool_eof s \<and> length data \<le> available s \<and> head_offset s + length data < u64_max \<and>
            prefix data (drop (head_offset s) src) \<longrightarrow>
          sp.stores src (push data s) \<and> head_offset (push data s) = head_offset s + length data) \<and>
    (up_to \<le> u64_max \<longrightarrow> sp.stores src (ack up_to s) \<and>
       sp_bytes_acked (ack up_to s) = max (sp_bytes_acked s) (min up_to (head_offset s))) \<and>
    (sp_bytes_acked s \<le> q \<and> q \<le> head_offset s \<longrightarrow>
       (\<exists>bs. slice_from split q s = Some bs \<and> prefix bs (drop q (take (head_offset s) src)) \<and>
          (q < head_offset s \<longrightarrow> bs \<noteq> [])))"
proof -
  have "wf_spool s" using assms by (simp add: sp.stores_def)
  then show ?thesis
    using sp.put_stores [OF assms] sp.put_top sp.free_stores [OF assms] sp.free_ok sp.get_stores [OF assms] by blast
qed

theorem spool_refines_stream_witness:
  "sp.stores [10, 20, 30] (push [10, 20, 30] spool_new) \<and>
   (\<exists>bs. slice_from 2 1 (push [10, 20, 30] spool_new) = Some bs \<and> prefix bs [20, 30] \<and> bs \<noteq> [])"
proof -
  have s: "sp.stores [10, 20, 30] (push [10, 20, 30] spool_new)"
    by (simp add: sp.stores_def wf_spool_def push_def spool_new_def head_offset_def SPOOL_CAPACITY_def u64_max_def)
  have h: "head_offset (push [10, 20, 30] spool_new) = 3" "sp_bytes_acked (push [10, 20, 30] spool_new) = 0"
    by (simp_all add: push_def spool_new_def head_offset_def u64_max_def)
  show ?thesis using spool_refines_stream [OF s, of "[]" 0 1 2] s by (simp add: h)
qed

end
