(* ===== verification/Stream_Pump.thy ===== *)
theory Stream_Pump
  imports Spool
begin

text \<open>
  The per-stream write task \<open>StreamPump\<close> and its handle \<open>RateLimiter\<close>
  (quelay-agent/src/rate_limiter.rs).

  The pump is a state machine: \<open>Running\<close> in the select loop of \<open>run\<close>, \<open>Waiting\<close> inside
  \<open>wait_for_link_up\<close>, \<open>Exited\<close> once the task has returned, \<open>Crashed\<close> if it panicked. An event is
  one message received from the ticket or the command channel (\<open>None\<close>: the channel is closed).

  \<open>drain_alloc\<close> takes the spool lock anew for every chunk, and the TCP reader and the ack task
  change the spool in between. The argument \<open>env\<close> gives the spool the pump finds (and where
  its ring wraps) when it takes the lock with its cursor at q; the cursor moves with every chunk, so
  no two turns of the loop share an argument. \<open>post\<close> is the spool found by the check after the loop.
\<close>

section \<open>The pump\<close>

datatype rate_cmd = LinkDown | LinkUp writer | Finish

datatype pump_phase = Running | Waiting | Exited | Crashed

record pump =
  pm_q :: nat
  pm_q_atomic :: nat
  pm_tx :: writer
  pm_fin_sent :: bool
  pm_done :: bool
  pm_finishing :: bool
  pm_phase :: pump_phase

type_synonym spool_env = "nat \<Rightarrow> nat \<times> spool"

datatype drain_end = Drained | WriteFailed | Panicked

definition shutdown :: "pump \<Rightarrow> pump" where
  "shutdown pm = pm\<lparr>pm_fin_sent := True, pm_done := True\<rparr>"

definition next_chunk :: "nat \<Rightarrow> nat \<Rightarrow> u8 list \<Rightarrow> u8 list" where
  "next_chunk remaining chunk_size sl = take (min (min (length sl) chunk_size) remaining) sl"

function drain_loop :: "spool_env \<Rightarrow> nat \<Rightarrow> nat \<Rightarrow> pump \<Rightarrow> drain_end \<times> pump" where
  "drain_loop env remaining chunk_size pm =
     (if remaining = 0 then (Drained, pm)
      else
        let (split, s) = env (pm_q pm) in
        if sp_head s = u64_max \<and> head_offset s \<le> pm_q pm
        then (Drained, if pm_finishing pm then shutdown pm else pm)
        else if head_offset s \<le> pm_q pm then (Drained, pm)
        else case slice_from split (pm_q pm) s of
               None \<Rightarrow> (Panicked, pm)
             | Some sl \<Rightarrow>
                 let chunk = next_chunk remaining chunk_size sl in
                 if chunk = [] then (Drained, pm)
                 else case write_all (encode_chunk (pm_q pm) chunk) ''QUIC write error'' (pm_tx pm) of
                        (Inl _, tx) \<Rightarrow> (WriteFailed, pm\<lparr>pm_tx := tx\<rparr>)
                      | (Inr _, tx) \<Rightarrow>
                          let q = add_u64 (pm_q pm) (length chunk) in
                          drain_loop env (saturating_sub_u64 remaining (length chunk)) chunk_size
                            (pm\<lparr>pm_tx := tx, pm_q := q, pm_q_atomic := q\<rparr>))"
  by pat_completeness auto
termination
  by (relation "measure (\<lambda>(env, remaining, chunk_size, pm). remaining)")
     (auto simp: saturating_sub_u64_def)

declare drain_loop.simps [simp del]

definition drain_alloc :: "spool_env \<Rightarrow> spool \<Rightarrow> nat \<Rightarrow> nat \<Rightarrow> pump \<Rightarrow> pump" where
  "drain_alloc env post budget chunk_size pm =
     (case drain_loop env budget chunk_size pm of
        (Panicked, pm1) \<Rightarrow> pm1\<lparr>pm_phase := Crashed\<rparr>
      | (WriteFailed, pm1) \<Rightarrow> pm1\<lparr>pm_phase := Waiting\<rparr>
      | (Drained, pm1) \<Rightarrow>
          let remaining_bytes = saturating_sub_u64 (head_offset post) (pm_q pm1);
              head_at_end = sp_head post;
              pm2 = (if pm_finishing pm1 \<and> head_at_end = u64_max \<and> remaining_bytes = 0 then shutdown pm1 else pm1)
          in if pm_done pm2 then pm2\<lparr>pm_phase := Exited\<rparr> else pm2)"

text \<open>Rewinding Q to A, done on every link event.\<close>

definition rewind :: "spool \<Rightarrow> pump \<Rightarrow> pump" where
  "rewind s pm = pm\<lparr>pm_q := sp_bytes_acked s, pm_q_atomic := sp_bytes_acked s\<rparr>"

definition on_ticket :: "spool_env \<Rightarrow> spool \<Rightarrow> nat option \<Rightarrow> pump \<Rightarrow> pump" where
  "on_ticket env post ticket pm =
     (case pm_phase pm of
        Running \<Rightarrow> (case ticket of
                      Some bytes \<Rightarrow> drain_alloc env post bytes CHUNK_SIZE pm
                    | None \<Rightarrow> pm\<lparr>pm_phase := Exited\<rparr>)
      | _ \<Rightarrow> pm)"

text \<open>\<open>s\<close> is the spool when the command is handled.\<close>

definition running_cmd :: "spool_env \<Rightarrow> spool \<Rightarrow> spool \<Rightarrow> rate_cmd option \<Rightarrow> pump \<Rightarrow> pump" where
  "running_cmd env post s cmd pm =
     (case cmd of
        Some LinkDown \<Rightarrow> (rewind s pm)\<lparr>pm_phase := Waiting\<rparr>
      | Some (LinkUp _) \<Rightarrow> pm
      | Some Finish \<Rightarrow>
          let pm1 = pm\<lparr>pm_finishing := True\<rparr>;
              remaining = saturating_sub_u64 (head_offset s) (pm_q pm1)
          in if remaining = 0 then drain_alloc env post 1 CHUNK_SIZE pm1 else pm1
      | None \<Rightarrow> pm\<lparr>pm_phase := Exited\<rparr>)"

definition wait_for_link_up :: "spool \<Rightarrow> rate_cmd option \<Rightarrow> pump \<Rightarrow> pump" where
  "wait_for_link_up s cmd pm =
     (case cmd of
        Some (LinkUp tx) \<Rightarrow> (rewind s pm)\<lparr>pm_tx := tx, pm_fin_sent := False, pm_phase := Running\<rparr>
      | Some LinkDown \<Rightarrow> rewind s pm
      | Some Finish \<Rightarrow> pm\<lparr>pm_finishing := True\<rparr>
      | None \<Rightarrow> pm\<lparr>pm_done := True, pm_phase := Exited\<rparr>)"

definition on_cmd :: "spool_env \<Rightarrow> spool \<Rightarrow> spool \<Rightarrow> rate_cmd option \<Rightarrow> pump \<Rightarrow> pump" where
  "on_cmd env post s cmd pm =
     (case pm_phase pm of
        Running \<Rightarrow> running_cmd env post s cmd pm
      | Waiting \<Rightarrow> wait_for_link_up s cmd pm
      | _ \<Rightarrow> pm)"

section \<open>The handle\<close>

text \<open>The pump \<open>RateLimiter::new\<close> spawns, and the ticket its forwarder task sends in uncapped
  mode when it is woken.\<close>

definition pump_new :: "writer \<Rightarrow> pump" where
  "pump_new tx = \<lparr>pm_q = 0, pm_q_atomic = 0, pm_tx = tx, pm_fin_sent = False, pm_done = False,
     pm_finishing = False, pm_phase = Running\<rparr>"

definition forwarder_ticket :: "spool \<Rightarrow> nat \<Rightarrow> nat option" where
  "forwarder_ticket s q = (if 0 < saturating_sub_u64 (head_offset s) q then Some u64_max else None)"

text \<open>The command channel (capacity 8) with whether the pump still receives.\<close>

record cmd_channel =
  cc_queue :: "rate_cmd list"
  cc_open :: bool

definition link_down :: "cmd_channel \<Rightarrow> cmd_channel" where
  "link_down c = (if cc_open c \<and> length (cc_queue c) < 8 then c\<lparr>cc_queue := cc_queue c @ [LinkDown]\<rparr> else c)"

text \<open>\<open>send\<close> waits for room, so an open channel always takes the message in the end.\<close>

definition link_up :: "writer \<Rightarrow> cmd_channel \<Rightarrow> (quelay_error + unit) \<times> cmd_channel" where
  "link_up tx c =
     (if cc_open c then (Inr (), c\<lparr>cc_queue := cc_queue c @ [LinkUp tx]\<rparr>)
      else (Inl (Io ''stream pump exited''), c))"

definition finish :: "cmd_channel \<Rightarrow> (quelay_error + unit) \<times> cmd_channel" where
  "finish c =
     (if cc_open c then (Inr (), c\<lparr>cc_queue := cc_queue c @ [Finish]\<rparr>)
      else (Inl (Io ''stream pump exited''), c))"

section \<open>Chunks that continue a stream\<close>

fun covers :: "u8 list \<Rightarrow> nat \<Rightarrow> chunk list \<Rightarrow> nat \<Rightarrow> bool" where
  "covers src q [] q' \<longleftrightarrow> q = q'"
| "covers src q (Chunk off pl # cs) q' \<longleftrightarrow>
     off = q \<and> pl \<noteq> [] \<and> length pl \<le> CHUNK_SIZE \<and> prefix pl (drop q src) \<and> covers src (q + length pl) cs q'"

lemma prefix_drop_le: "prefix pl (drop q src) \<Longrightarrow> q \<le> length src \<Longrightarrow> q + length pl \<le> length src"
  by (auto dest!: prefix_length_le)

lemma covers_bounds: "covers src q cs q' \<Longrightarrow> q \<le> length src \<Longrightarrow> q \<le> q' \<and> q' \<le> length src"
  by (induction src q cs q' rule: covers.induct) (auto dest: prefix_drop_le)

lemma covers_append: "covers src q (cs @ ds) q'' \<longleftrightarrow> (\<exists>q'. covers src q cs q' \<and> covers src q' ds q'')"
  by (induction src q cs q'' rule: covers.induct) auto

text \<open>Together the payloads are the bytes of the stream from q to q'.\<close>

lemma covers_payload:
  "covers src q cs q' \<Longrightarrow> q \<le> length src \<Longrightarrow> concat (map chunk_payload cs) = take (q' - q) (drop q src)"
proof (induction src q cs q' rule: covers.induct)
  case (2 src q off pl cs q')
  then have b: "q + length pl \<le> length src" using prefix_drop_le by auto
  from 2 obtain r where r: "drop q src = pl @ r" by (auto simp: prefix_def)
  have "drop (q + length pl) src = drop (length pl) (drop q src)" by (simp add: add.commute)
  also have "\<dots> = r" by (simp add: r)
  finally have r': "drop (q + length pl) src = r" .
  have "q + length pl \<le> q'" using 2 b covers_bounds by auto
  then have "take (q' - q) (drop q src) = pl @ take (q' - (q + length pl)) r" by (simp add: r)
  with 2 b r' show ?case by simp
qed simp

lemma covers_fits: "covers src q cs q' \<Longrightarrow> q \<le> length src \<Longrightarrow> length src \<le> u64_max \<Longrightarrow> c \<in> set cs \<Longrightarrow> chunk_fits c"
  by (induction src q cs q' rule: covers.induct) (auto simp: chunk_fits_def dest: prefix_drop_le)

section \<open>What a drain sends\<close>

text \<open>The spools the pump meets hold the stream, and A never passes the cursor it has then.\<close>

definition env_ok :: "u8 list \<Rightarrow> spool_env \<Rightarrow> nat \<Rightarrow> bool" where
  "env_ok src env q0 \<longleftrightarrow> (\<forall>q \<ge> q0. sp.stores src (snd (env q)) \<and> sp_bytes_acked (snd (env q)) \<le> q)"

lemma env_ok_mono: "env_ok src env q \<Longrightarrow> q \<le> q' \<Longrightarrow> env_ok src env q'"
  by (auto simp: env_ok_def)

text \<open>The chunk a turn of the loop takes.\<close>

definition continues :: "u8 list \<Rightarrow> nat \<Rightarrow> nat \<Rightarrow> u8 list \<Rightarrow> bool" where
  "continues src q remaining pl \<longleftrightarrow> pl \<noteq> [] \<and> prefix pl (drop q src) \<and> length pl \<le> CHUNK_SIZE \<and>
     length pl \<le> remaining \<and> q + length pl \<le> length src"

lemma next_chunk_props:
  assumes "sp.stores src s" "sp_bytes_acked s \<le> q" "q < head_offset s" "0 < remaining"
  obtains sl where "slice_from split q s = Some sl" "continues src q remaining (next_chunk remaining CHUNK_SIZE sl)"
proof -
  obtain sl where sl: "slice_from split q s = Some sl" "prefix sl (drop q (take (head_offset s) src))" "sl \<noteq> []"
    using sp.get_stores [of src s q split] assms by auto
  let ?c = "next_chunk remaining CHUNK_SIZE sl"
  have "prefix ?c sl" by (simp add: next_chunk_def take_is_prefix)
  then have "prefix ?c (drop q (take (head_offset s) src))" using sl(2) by (rule prefix_order.trans)
  moreover have "prefix (drop q (take (head_offset s) src)) (drop q src)" by (metis drop_take take_is_prefix)
  ultimately have c: "prefix ?c (drop q src)" by (rule prefix_order.trans)
  moreover have "?c \<noteq> []" using sl(3) assms(4) by (auto simp: next_chunk_def CHUNK_SIZE_def)
  moreover have "q \<le> length src" using assms(1,3) by (simp add: sp.stores_def)
  ultimately show ?thesis using that [OF sl(1)] prefix_drop_le [OF c] by (simp add: continues_def next_chunk_def)
qed

definition wrote :: "u8 list \<Rightarrow> drain_end \<Rightarrow> nat \<Rightarrow> nat \<Rightarrow> u8 list \<Rightarrow> bool" where
  "wrote src res q q' bytes \<longleftrightarrow> (\<exists>cs. covers src q cs q' \<and>
     (case res of
        Drained \<Rightarrow> bytes = enc_all encode_chunk cs
      | WriteFailed \<Rightarrow> (\<exists>c q'' n. covers src q' [c] q'' \<and> n < length (enc_all encode_chunk [c]) \<and>
          bytes = enc_all encode_chunk cs @ take n (enc_all encode_chunk [c]))
      | Panicked \<Rightarrow> False))"

lemma wrote_Cons:
  assumes "wrote src res (q + length pl) q' bytes" "prefix pl (drop q src)" "pl \<noteq> []" "length pl \<le> CHUNK_SIZE"
  shows "wrote src res q q' (encode_chunk q pl @ bytes)"
proof -
  from assms(1) obtain cs where cs: "covers src (q + length pl) cs q'"
    "case res of
        Drained \<Rightarrow> bytes = enc_all encode_chunk cs
      | WriteFailed \<Rightarrow> (\<exists>c q'' n. covers src q' [c] q'' \<and> n < length (enc_all encode_chunk [c]) \<and>
          bytes = enc_all encode_chunk cs @ take n (enc_all encode_chunk [c]))
      | Panicked \<Rightarrow> False" unfolding wrote_def by blast
  have "covers src q (Chunk q pl # cs) q'" using cs assms by simp
  then show ?thesis using cs(2) unfolding wrote_def
    by (intro exI [of _ "Chunk q pl # cs"] conjI) (auto split: drain_end.splits)
qed

text \<open>One turn of the loop.\<close>

definition advance :: "u8 list \<Rightarrow> writer \<Rightarrow> pump \<Rightarrow> pump" where
  "advance pl tx pm = pm\<lparr>pm_tx := tx, pm_q := pm_q pm + length pl, pm_q_atomic := pm_q pm + length pl\<rparr>"

definition may_finish :: "spool_env \<Rightarrow> pump \<Rightarrow> bool" where
  "may_finish env pm \<longleftrightarrow> pm_finishing pm \<and> spool_eof (snd (env (pm_q pm))) \<and> head_offset (snd (env (pm_q pm))) \<le> pm_q pm"

lemma drain_loop_zero: "drain_loop env 0 chunk_size pm = (Drained, pm)"
  by (simp add: drain_loop.simps)

lemma drain_loop_idle:
  assumes "env (pm_q pm) = (split, s)" "head_offset s \<le> pm_q pm" "0 < remaining"
  shows "drain_loop env remaining chunk_size pm = (Drained, if spool_eof s \<and> pm_finishing pm then shutdown pm else pm)"
  using assms by (subst drain_loop.simps) (simp add: spool_eof_def)

lemma drain_loop_write:
  assumes "env (pm_q pm) = (split, s)" "pm_q pm < head_offset s" "0 < remaining"
    "slice_from split (pm_q pm) s = Some sl" "pl = next_chunk remaining chunk_size sl" "pl \<noteq> []"
    "pm_q pm + length pl \<le> u64_max"
  shows "drain_loop env remaining chunk_size pm =
    (case write_all (encode_chunk (pm_q pm) pl) ''QUIC write error'' (pm_tx pm) of
       (Inl _, tx) \<Rightarrow> (WriteFailed, pm\<lparr>pm_tx := tx\<rparr>)
     | (Inr _, tx) \<Rightarrow> drain_loop env (remaining - length pl) chunk_size (advance pl tx pm))"
  using assms
  by (subst drain_loop.simps)
     (simp add: Let_def advance_def saturating_sub_u64_def split: sum.split prod.split)

lemma drain_loop_turn:
  assumes "env_ok src env (pm_q pm)" "length src < u64_max"
  obtains (stop) "drain_loop env remaining CHUNK_SIZE pm = (Drained, pm)"
      "remaining = 0 \<or> head_offset (snd (env (pm_q pm))) \<le> pm_q pm"
  | (fin) "drain_loop env remaining CHUNK_SIZE pm = (Drained, shutdown pm)" "may_finish env pm"
  | (fail) pl tx n where "continues src (pm_q pm) remaining pl"
      "drain_loop env remaining CHUNK_SIZE pm = (WriteFailed, pm\<lparr>pm_tx := tx\<rparr>)"
      "n < length (encode_chunk (pm_q pm) pl)" "wr_bytes tx = wr_bytes (pm_tx pm) @ take n (encode_chunk (pm_q pm) pl)"
  | (send) pl tx where "continues src (pm_q pm) remaining pl"
      "drain_loop env remaining CHUNK_SIZE pm = drain_loop env (remaining - length pl) CHUNK_SIZE (advance pl tx pm)"
      "wr_bytes tx = wr_bytes (pm_tx pm) @ encode_chunk (pm_q pm) pl"
proof -
  obtain split s where e: "env (pm_q pm) = (split, s)" by fastforce
  have s: "sp.stores src s" "sp_bytes_acked s \<le> pm_q pm" using assms(1) e by (auto simp: env_ok_def)
  consider "remaining = 0" | "0 < remaining" "head_offset s \<le> pm_q pm" | "0 < remaining" "pm_q pm < head_offset s"
    by linarith
  then show ?thesis
  proof cases
    case 1
    then show ?thesis using stop by (simp add: drain_loop_zero)
  next
    case 2
    note idle = drain_loop_idle [where env = env and pm = pm, OF e 2(2,1), of CHUNK_SIZE]
    show ?thesis
    proof (cases "spool_eof s \<and> pm_finishing pm")
      case True
      show ?thesis by (rule fin) (simp_all only: idle True if_True may_finish_def e snd_conv 2(2) simp_thms)
    next
      case False
      show ?thesis by (rule stop) (simp_all only: idle False if_False e snd_conv 2(2) simp_thms)
    qed
  next
    case 3
    obtain sl where sl: "slice_from split (pm_q pm) s = Some sl"
      "continues src (pm_q pm) remaining (next_chunk remaining CHUNK_SIZE sl)"
      by (rule next_chunk_props [OF s 3(2,1)])
    define c where "c = next_chunk remaining CHUNK_SIZE sl"
    have c: "continues src (pm_q pm) remaining c" using sl(2) by (simp add: c_def)
    have "c \<noteq> []" "pm_q pm + length c \<le> u64_max" using c assms(2) by (auto simp: continues_def)
    note w = drain_loop_write [where env = env and pm = pm, OF e 3(2,1) sl(1) c_def this]
    show ?thesis
    proof (rule write_all_cases [of "encode_chunk (pm_q pm) c" "''QUIC write error''" "pm_tx pm"])
      fix tx assume tx: "write_all (encode_chunk (pm_q pm) c) ''QUIC write error'' (pm_tx pm) = (Inr (), tx)"
        "wr_bytes tx = wr_bytes (pm_tx pm) @ encode_chunk (pm_q pm) c"
      show ?thesis by (rule send [OF c _ tx(2)]) (unfold w tx(1), simp)
    next
      fix tx n assume tx: "write_all (encode_chunk (pm_q pm) c) ''QUIC write error'' (pm_tx pm) =
          (Inl (Transport ''QUIC write error''), tx)" "n < length (encode_chunk (pm_q pm) c)"
        "wr_bytes tx = wr_bytes (pm_tx pm) @ take n (encode_chunk (pm_q pm) c)"
      show ?thesis by (rule fail [OF c _ tx(2,3)]) (unfold w tx(1), simp)
    qed
  qed
qed

text \<open>A whole drain.\<close>

definition drained :: "u8 list \<Rightarrow> spool_env \<Rightarrow> nat \<Rightarrow> pump \<Rightarrow> drain_end \<Rightarrow> pump \<Rightarrow> bool" where
  "drained src env remaining pm res pm' \<longleftrightarrow>
     (\<exists>bytes. wr_bytes (pm_tx pm') = wr_bytes (pm_tx pm) @ bytes \<and> wrote src res (pm_q pm) (pm_q pm') bytes) \<and>
     pm_q pm' \<le> pm_q pm + remaining \<and> pm_finishing pm' = pm_finishing pm \<and> pm_phase pm' = pm_phase pm \<and>
     (pm_done pm' = pm_done pm \<and> pm_fin_sent pm' = pm_fin_sent pm \<or> res = Drained \<and> pm_done pm' \<and> may_finish env pm')"

lemma drained_advance:
  assumes d: "drained src env (remaining - length pl) (advance pl tx pm) res pm'" and c: "continues src (pm_q pm) remaining pl"
    and tx: "wr_bytes tx = wr_bytes (pm_tx pm) @ encode_chunk (pm_q pm) pl"
  shows "drained src env remaining pm res pm'"
proof -
  from d obtain bytes where b: "wr_bytes (pm_tx pm') = wr_bytes tx @ bytes"
    "wrote src res (pm_q pm + length pl) (pm_q pm') bytes"
    by (auto simp: drained_def advance_def)
  have "wrote src res (pm_q pm) (pm_q pm') (encode_chunk (pm_q pm) pl @ bytes)"
    using wrote_Cons [OF b(2)] c by (simp add: continues_def)
  then have "\<exists>bytes. wr_bytes (pm_tx pm') = wr_bytes (pm_tx pm) @ bytes \<and> wrote src res (pm_q pm) (pm_q pm') bytes"
    using b(1) tx by auto
  then show ?thesis using d c by (auto simp: drained_def advance_def continues_def)
qed

lemma drain_loop_drained:
  assumes "env_ok src env (pm_q pm)" "length src < u64_max" "drain_loop env remaining CHUNK_SIZE pm = (res, pm')"
  shows "drained src env remaining pm res pm'"
  using assms
proof (induction remaining arbitrary: pm rule: less_induct)
  case (less remaining)
  have here: "wrote src Drained q q []" for q by (auto simp: wrote_def intro: exI [of _ "[]"])
  show ?case
  proof (rule drain_loop_turn [OF less.prems(1,2), of remaining])
    fix pl tx assume c: "continues src (pm_q pm) remaining pl"
      and r: "drain_loop env remaining CHUNK_SIZE pm = drain_loop env (remaining - length pl) CHUNK_SIZE (advance pl tx pm)"
      and tx: "wr_bytes tx = wr_bytes (pm_tx pm) @ encode_chunk (pm_q pm) pl"
    have "env_ok src env (pm_q (advance pl tx pm))" using less.prems(1) by (rule env_ok_mono) (simp add: advance_def)
    moreover have "remaining - length pl < remaining" using c by (cases pl) (auto simp: continues_def)
    ultimately have "drained src env (remaining - length pl) (advance pl tx pm) res pm'"
      using less.IH less.prems(2,3) r by simp
    then show ?thesis using c tx by (rule drained_advance)
  next
    fix pl tx n assume "continues src (pm_q pm) remaining pl"
      "drain_loop env remaining CHUNK_SIZE pm = (WriteFailed, pm\<lparr>pm_tx := tx\<rparr>)" "n < length (encode_chunk (pm_q pm) pl)"
      "wr_bytes tx = wr_bytes (pm_tx pm) @ take n (encode_chunk (pm_q pm) pl)"
    moreover from this have "wrote src WriteFailed (pm_q pm) (pm_q pm) (take n (encode_chunk (pm_q pm) pl))"
      unfolding wrote_def continues_def
      by (intro exI [of _ "[]"] conjI) (auto intro!: exI [of _ "Chunk (pm_q pm) pl"])
    ultimately show ?thesis using less.prems(3) by (auto simp: drained_def)
  qed (use less.prems(3) here in \<open>auto simp: drained_def shutdown_def may_finish_def\<close>)
qed

lemma drain_loop_not_panicked:
  "env_ok src env (pm_q pm) \<Longrightarrow> length src < u64_max \<Longrightarrow> fst (drain_loop env remaining CHUNK_SIZE pm) \<noteq> Panicked"
  using drain_loop_drained [of src env pm remaining] by (cases "drain_loop env remaining CHUNK_SIZE pm") (auto simp: drained_def wrote_def)

text \<open>\<open>drain_alloc\<close> in terms of its loop.\<close>

lemma drain_alloc_cases:
  assumes "env_ok src env (pm_q pm)" "length src < u64_max" "pm_phase pm = Running"
  obtains (failed) pm1 where "drained src env budget pm WriteFailed pm1"
      "drain_alloc env post budget CHUNK_SIZE pm = pm1\<lparr>pm_phase := Waiting\<rparr>"
  | (fin) pm1 pm2 where "drained src env budget pm Drained pm1" "pm2 = pm1 \<or> pm2 = shutdown pm1" "pm_done pm2"
      "pm_done pm1 \<or> pm_finishing pm1 \<and> spool_eof post \<and> head_offset post \<le> pm_q pm1"
      "drain_alloc env post budget CHUNK_SIZE pm = pm2\<lparr>pm_phase := Exited\<rparr>"
  | (more) pm1 where "drained src env budget pm Drained pm1" "\<not> pm_done pm1"
      "\<not> (pm_finishing pm1 \<and> spool_eof post \<and> head_offset post \<le> pm_q pm1)"
      "drain_alloc env post budget CHUNK_SIZE pm = pm1"
proof -
  obtain res pm1 where l: "drain_loop env budget CHUNK_SIZE pm = (res, pm1)" by fastforce
  have d: "drained src env budget pm res pm1" by (rule drain_loop_drained [OF assms(1,2) l])
  show ?thesis
  proof (cases res)
    case Panicked
    then show ?thesis using drain_loop_not_panicked [OF assms(1,2), of budget] l by simp
  next
    case WriteFailed
    show ?thesis by (rule failed [of pm1]) (use d l WriteFailed in \<open>simp_all add: drain_alloc_def\<close>)
  next
    case Drained
    let ?fin = "pm_finishing pm1 \<and> spool_eof post \<and> head_offset post \<le> pm_q pm1"
    have a: "drain_alloc env post budget CHUNK_SIZE pm =
        (let pm2 = (if ?fin then shutdown pm1 else pm1) in if pm_done pm2 then pm2\<lparr>pm_phase := Exited\<rparr> else pm2)"
      using l Drained by (simp add: drain_alloc_def spool_eof_def saturating_sub_u64_def Let_def)
    show ?thesis
    proof (cases "?fin \<or> pm_done pm1")
      case True
      show ?thesis
        by (rule fin [of pm1 "if ?fin then shutdown pm1 else pm1"]) (use True d Drained a in \<open>auto simp: shutdown_def Let_def\<close>)
    next
      case False
      show ?thesis by (rule more [of pm1]) (use False d Drained a in \<open>auto simp: Let_def\<close>)
    qed
  qed
qed

lemma drain_loop_reaches:
  assumes "env_ok src env (pm_q pm)" "length src < u64_max" "\<And>q. snd (env q) = s" "wr_room (pm_tx pm) = None"
    "pm_q pm \<le> head_offset s"
  shows "\<exists>pm'. drain_loop env remaining CHUNK_SIZE pm = (Drained, pm') \<and> pm_q pm' = min (head_offset s) (pm_q pm + remaining)"
  using assms
proof (induction remaining arbitrary: pm rule: less_induct)
  case (less remaining)
  obtain f where e: "env (pm_q pm) = (f, s)" using less.prems(3) [of "pm_q pm"] by (cases "env (pm_q pm)") auto
  have s: "sp.stores src s" "sp_bytes_acked s \<le> pm_q pm" using less.prems(1) e by (auto simp: env_ok_def)
  show ?case
  proof (cases "0 < remaining \<and> pm_q pm < head_offset s")
    case False
    then show ?thesis using less.prems(5) drain_loop_zero [of env CHUNK_SIZE pm]
        drain_loop_idle [where env = env and pm = pm and chunk_size = CHUNK_SIZE and remaining = remaining, OF e]
      by (cases "remaining = 0") (auto simp: shutdown_def)
  next
    case True
    obtain sl where sl: "slice_from f (pm_q pm) s = Some sl" "continues src (pm_q pm) remaining (next_chunk remaining CHUNK_SIZE sl)"
      by (rule next_chunk_props [OF s]) (use True in auto)
    define pl where "pl = next_chunk remaining CHUNK_SIZE sl"
    have c: "continues src (pm_q pm) remaining pl" using sl(2) by (simp add: pl_def)
    have top: "pm_q pm + length pl \<le> head_offset s"
    proof -
      obtain bs where "slice_from f (pm_q pm) s = Some bs" "prefix bs (drop (pm_q pm) (take (head_offset s) src))"
        using sp.get_stores [OF s] True by fastforce
      then have "length sl \<le> head_offset s - pm_q pm" using sl(1) prefix_length_le by fastforce
      moreover have "length pl \<le> length sl" by (simp add: pl_def next_chunk_def)
      ultimately show ?thesis using True by linarith
    qed
    have ne: "pl \<noteq> []" "pm_q pm + length pl \<le> u64_max" using c less.prems(2) by (auto simp: continues_def)
    obtain tx where tx: "write_all (encode_chunk (pm_q pm) pl) ''QUIC write error'' (pm_tx pm) = (Inr (), tx)" "wr_room tx = None"
      using less.prems(4) by (simp add: write_all_def)
    have r: "drain_loop env remaining CHUNK_SIZE pm = drain_loop env (remaining - length pl) CHUNK_SIZE (advance pl tx pm)"
      using drain_loop_write [where env = env and pm = pm, OF e _ _ sl(1) pl_def ne] True tx by simp
    have "remaining - length pl < remaining" using True ne by (cases pl) auto
    moreover have "env_ok src env (pm_q (advance pl tx pm))"
      using less.prems(1) by (rule env_ok_mono) (simp add: advance_def)
    ultimately obtain pm' where "drain_loop env (remaining - length pl) CHUNK_SIZE (advance pl tx pm) = (Drained, pm')"
      "pm_q pm' = min (head_offset s) (pm_q (advance pl tx pm) + (remaining - length pl))"
      using less.IH [of "remaining - length pl" "advance pl tx pm"] less.prems(2,3) tx(2) top by (auto simp: advance_def)
    moreover have "length pl \<le> remaining" using c by (simp add: continues_def)
    ultimately show ?thesis using r by (simp add: advance_def)
  qed
qed

section \<open>Properties\<close>

text \<open>C9 (functional): on a ticket of n bytes the running pump never panics, moves its cursor by at most n, and
  puts on the QUIC stream exactly the bytes of the client stream between the old and the new
  cursor, as consecutive chunks. If the write half fails it stops inside the next chunk and
  waits for a new one; the cursor stays on the last chunk written whole.\<close>

theorem pump_sends_stream:
  assumes "env_ok src env (pm_q pm)" "length src < u64_max" "pm_phase pm = Running"
    and "pm' = on_ticket env post (Some n) pm"
  shows "pm_phase pm' \<noteq> Crashed \<and> pm_q pm' \<le> pm_q pm + n \<and>
    (\<exists>bytes. wr_bytes (pm_tx pm') = wr_bytes (pm_tx pm) @ bytes \<and>
       wrote src (if pm_phase pm' = Waiting then WriteFailed else Drained) (pm_q pm) (pm_q pm') bytes)"
proof -
  have t: "pm' = drain_alloc env post n CHUNK_SIZE pm" using assms(3,4) by (simp add: on_ticket_def)
  show ?thesis
    by (rule drain_alloc_cases [OF assms(1-3), of n post])
       (use t assms(3) in \<open>auto simp: drained_def shutdown_def\<close>)
qed

definition demo_spool :: spool where
  "demo_spool = \<lparr>sp_buf = [10, 20, 30], sp_bytes_acked = 0, sp_head = u64_max\<rparr>"

lemma demo_env_ok: "env_ok [10, 20, 30] (\<lambda>q. (2, demo_spool)) 0"
  by (simp add: env_ok_def sp.stores_def demo_spool_def wf_spool_def head_offset_def SPOOL_CAPACITY_def u64_max_def add_u64_def)

theorem pump_sends_stream_witness:
  "\<exists>bytes pm'. pm' = on_ticket (\<lambda>q. (2, demo_spool)) demo_spool (Some 2) (pump_new \<lparr>wr_bytes = [], wr_room = None\<rparr>) \<and>
     wr_bytes (pm_tx pm') = bytes \<and> pm_q pm' \<le> 2 \<and>
     wrote [10, 20, 30] (if pm_phase pm' = Waiting then WriteFailed else Drained) 0 (pm_q pm') bytes"
  using pump_sends_stream [of "[10, 20, 30]" "\<lambda>q. (2, demo_spool)" "pump_new \<lparr>wr_bytes = [], wr_room = None\<rparr>" _ demo_spool 2]
    demo_env_ok by (simp add: pump_new_def u64_max_def)





text \<open>Recovery. A pump waiting for a link discards tickets; when the new write half arrives
  it goes back to A, the first byte the receiver has not acknowledged, and the new QUIC stream
  carries the client's bytes from A on.\<close>

theorem link_up_replays:
  assumes w: "pm_phase pm = Waiting" and pm1: "pm1 = on_cmd env0 post0 s (Some (LinkUp tx)) (on_ticket env0 post0 t0 pm)"
    and env: "env_ok src env (sp_bytes_acked s)" "length src < u64_max" and pm': "pm' = on_ticket env post (Some n) pm1"
  shows "pm_phase pm1 = Running \<and> pm_q pm1 = sp_bytes_acked s \<and> pm_q_atomic pm1 = sp_bytes_acked s \<and>
    (\<exists>bytes. wr_bytes (pm_tx pm') = wr_bytes tx @ bytes \<and>
       wrote src (if pm_phase pm' = Waiting then WriteFailed else Drained) (sp_bytes_acked s) (pm_q pm') bytes)"
proof -
  have r: "pm_phase pm1 = Running" "pm_q pm1 = sp_bytes_acked s" "pm_q_atomic pm1 = sp_bytes_acked s" "pm_tx pm1 = tx"
    using w pm1 by (simp_all add: on_ticket_def on_cmd_def wait_for_link_up_def rewind_def)
  have t: "pm' = drain_alloc env post n CHUNK_SIZE pm1" using r(1) pm' by (simp add: on_ticket_def)
  have ok: "env_ok src env (pm_q pm1)" using env(1) r(2) by simp
  show ?thesis
    by (rule drain_alloc_cases [OF ok env(2) r(1), of n post])
       (use t r in \<open>auto simp: drained_def shutdown_def\<close>)
qed

theorem link_up_replays_witness:
  "\<exists>pm1. pm1 = on_cmd (\<lambda>q. (0, demo_spool)) demo_spool demo_spool (Some (LinkUp \<lparr>wr_bytes = [], wr_room = None\<rparr>))
      (on_ticket (\<lambda>q. (0, demo_spool)) demo_spool (Some 100) ((pump_new \<lparr>wr_bytes = [], wr_room = Some 0\<rparr>)\<lparr>pm_phase := Waiting, pm_q := 2\<rparr>)) \<and>
     pm_phase pm1 = Running \<and> pm_q pm1 = 0"
  using link_up_replays [OF _ refl, of "(pump_new \<lparr>wr_bytes = [], wr_room = Some 0\<rparr>)\<lparr>pm_phase := Waiting, pm_q := 2\<rparr>"
      "[10, 20, 30]" "\<lambda>q. (2, demo_spool)" demo_spool _ demo_spool 3 "\<lambda>q. (0, demo_spool)" demo_spool
      "\<lparr>wr_bytes = [], wr_room = None\<rparr>" "Some 100"] demo_env_ok
  by (simp add: demo_spool_def u64_max_def)

end
