(* ===== verification/Thrift_Mapping.thy ===== *)
theory Thrift_Mapping
  imports Domain
begin

text \<open>
  The boundary to the Thrift clients: the conversions of quelay-thrift/src/mapping.rs. The wire
  types are those of quelay.thrift: fields are optional, integers are signed, an enumeration is
  an i32 of which the source names some values. UUIDs cross as text; printing and parsing them is
  the uuid crate's, so both are arguments. A percentage is kept as the pair (bytes, total) it is
  computed from.
\<close>

section \<open>Casts\<close>

definition as_i64 :: "nat \<Rightarrow> int" where
  "as_i64 n = (let m = n mod 2 ^ 64 in if m < 2 ^ 63 then int m else int m - 2 ^ 64)"

definition as_u64 :: "int \<Rightarrow> nat" where
  "as_u64 i = nat (i mod 2 ^ 64)"

lemma as_u64_as_i64: "n \<le> u64_max \<Longrightarrow> as_u64 (as_i64 n) = n"
  by (simp add: as_u64_def as_i64_def u64_max_def Let_def)

lemma as_i64_exact: "n < 2 ^ 63 \<Longrightarrow> as_i64 n = int n"
  by (simp add: as_i64_def Let_def)

section \<open>Wire types\<close>

record wire_conn_stats =
  w_sent_packets :: "int option"
  w_lost_packets :: "int option"
  w_congestion_events :: "int option"
  w_rtt_ms :: "int option"
  w_cwnd :: "int option"
  w_lost_bytes :: "int option"

type_synonym wire_link_state = int

abbreviation CONNECTING :: wire_link_state where "CONNECTING \<equiv> 0"
abbreviation NORMAL :: wire_link_state where "NORMAL \<equiv> 1"
abbreviation DEGRADED :: wire_link_state where "DEGRADED \<equiv> 2"
abbreviation FAILED :: wire_link_state where "FAILED \<equiv> 3"

text \<open>\<open>FailReason\<close>, likewise an i32.\<close>

type_synonym fail_reason = int

abbreviation SENDER_CLOSED :: fail_reason where "SENDER_CLOSED \<equiv> 0"
abbreviation LINK_FAILED :: fail_reason where "LINK_FAILED \<equiv> 1"
abbreviation UNKNOWN :: fail_reason where "UNKNOWN \<equiv> 99"

record wire_stream_info =
  w_size_bytes :: "int option"
  w_attrs :: "(string \<rightharpoonup> string) option"

record wire_progress_info =
  wp_bytes_transferred :: "int option"
  wp_size_bytes :: "int option"
  wp_percent_done :: "(nat \<times> nat) option"

record wire_queue_status =
  w_active_count :: "int option"
  w_max_concurrent :: "int option"
  w_max_pending :: "int option"
  w_pending :: "string list option"

section \<open>Conversions\<close>

definition conn_stats_to_wire :: "conn_stats \<Rightarrow> wire_conn_stats" where
  "conn_stats_to_wire d = \<lparr>
     w_sent_packets = Some (as_i64 (sent_packets d)),
     w_lost_packets = Some (as_i64 (lost_packets d)),
     w_congestion_events = Some (as_i64 (congestion_events d)),
     w_rtt_ms = Some (as_i64 (rtt_ms d)),
     w_cwnd = Some (as_i64 (cwnd d)),
     w_lost_bytes = Some (as_i64 (lost_bytes d))\<rparr>"

definition conn_stats_from_wire :: "wire_conn_stats \<Rightarrow> conn_stats" where
  "conn_stats_from_wire w = \<lparr>
     sent_packets = as_u64 (unwrap_or (w_sent_packets w) 0),
     lost_packets = as_u64 (unwrap_or (w_lost_packets w) 0),
     congestion_events = as_u64 (unwrap_or (w_congestion_events w) 0),
     rtt_ms = as_u64 (unwrap_or (w_rtt_ms w) 0),
     cwnd = as_u64 (unwrap_or (w_cwnd w) 0),
     lost_bytes = as_u64 (unwrap_or (w_lost_bytes w) 0)\<rparr>"

definition link_state_from_wire :: "wire_link_state \<Rightarrow> link_state" where
  "link_state_from_wire w =
     (if w = CONNECTING then Connecting
      else if w = NORMAL then Normal
      else if w = DEGRADED then Degraded
      else if w = FAILED then Failed
      else Failed)"

fun link_state_to_wire :: "link_state \<Rightarrow> wire_link_state" where
  "link_state_to_wire Connecting = CONNECTING"
| "link_state_to_wire Normal = NORMAL"
| "link_state_to_wire Degraded = DEGRADED"
| "link_state_to_wire Failed = FAILED"

definition stream_info_from_wire :: "wire_stream_info \<Rightarrow> stream_info" where
  "stream_info_from_wire w = \<lparr>size_bytes = map_option as_u64 (w_size_bytes w), attrs = unwrap_or (w_attrs w) Map.empty\<rparr>"

definition stream_info_to_wire :: "stream_info \<Rightarrow> wire_stream_info" where
  "stream_info_to_wire d = \<lparr>w_size_bytes = map_option as_i64 (size_bytes d), w_attrs = Some (attrs d)\<rparr>"

definition progress_from_wire :: "uuid \<Rightarrow> wire_progress_info \<Rightarrow> nat \<Rightarrow> transfer_progress" where
  "progress_from_wire u w bps = \<lparr>tp_uuid = u, bytes_transferred = as_u64 (unwrap_or (wp_bytes_transferred w) 0),
     percent_done = wp_percent_done w, throughput_bps = bps\<rparr>"

definition progress_to_wire :: "transfer_progress \<Rightarrow> wire_progress_info" where
  "progress_to_wire d = \<lparr>wp_bytes_transferred = Some (as_i64 (bytes_transferred d)), wp_size_bytes = None,
     wp_percent_done = percent_done d\<rparr>"

definition queue_status_from_wire :: "(string \<Rightarrow> uuid option) \<Rightarrow> wire_queue_status \<Rightarrow> queue_status" where
  "queue_status_from_wire parse_str w = \<lparr>active_count = unwrap_or (w_active_count w) 0,
     qs_max_concurrent = unwrap_or (w_max_concurrent w) 0,
     qs_max_pending = unwrap_or (w_max_pending w) 0,
     qs_pending = List.map_filter parse_str (unwrap_or (w_pending w) [])\<rparr>"

definition queue_status_to_wire :: "(uuid \<Rightarrow> string) \<Rightarrow> queue_status \<Rightarrow> wire_queue_status" where
  "queue_status_to_wire to_string d = \<lparr>w_active_count = Some (active_count d),
     w_max_concurrent = Some (qs_max_concurrent d), w_max_pending = Some (qs_max_pending d),
     w_pending = Some (map to_string (qs_pending d))\<rparr>"

section \<open>Properties\<close>

lemma map_filter_inverse: "(\<And>u. parse (print u) = Some u) \<Longrightarrow> List.map_filter parse (map print us) = us"
  by (induction us) (simp_all add: List.map_filter_simps)

text \<open>Values the domain types can hold.\<close>

definition conn_stats_u64 :: "conn_stats \<Rightarrow> bool" where
  "conn_stats_u64 d \<longleftrightarrow> sent_packets d \<le> u64_max \<and> lost_packets d \<le> u64_max \<and> congestion_events d \<le> u64_max \<and>
     rtt_ms d \<le> u64_max \<and> cwnd d \<le> u64_max \<and> lost_bytes d \<le> u64_max"

text \<open>C33 (roundtrip): a domain value survives the trip to the wire and back, for every type that crosses:
  statistics, link state, stream metadata and queue status. Assumed of the uuid crate: a printed
  UUID parses to itself.\<close>

theorem thrift_roundtrip:
  assumes "\<And>u. parse_str (to_string u) = Some u" and "conn_stats_u64 st" and "\<forall>n. size_bytes i = Some n \<longrightarrow> n \<le> u64_max"
    and "bytes_transferred p \<le> u64_max"
  shows "conn_stats_from_wire (conn_stats_to_wire st) = st \<and>
    link_state_from_wire (link_state_to_wire l) = l \<and>
    stream_info_from_wire (stream_info_to_wire i) = i \<and>
    progress_from_wire (tp_uuid p) (progress_to_wire p) (throughput_bps p) = p \<and>
    queue_status_from_wire parse_str (queue_status_to_wire to_string q) = q"
proof (intro conjI)
  show "conn_stats_from_wire (conn_stats_to_wire st) = st"
    using assms(2) by (simp add: conn_stats_from_wire_def conn_stats_to_wire_def conn_stats_u64_def as_u64_as_i64)
  show "link_state_from_wire (link_state_to_wire l) = l"
    by (cases l) (simp_all add: link_state_from_wire_def)
  show "stream_info_from_wire (stream_info_to_wire i) = i"
    using assms(3) by (cases "size_bytes i") (simp_all add: stream_info_from_wire_def stream_info_to_wire_def as_u64_as_i64)
  show "progress_from_wire (tp_uuid p) (progress_to_wire p) (throughput_bps p) = p"
    using assms(4) by (simp add: progress_from_wire_def progress_to_wire_def as_u64_as_i64)
  show "queue_status_from_wire parse_str (queue_status_to_wire to_string q) = q"
    by (simp add: queue_status_from_wire_def queue_status_to_wire_def map_filter_inverse [of parse_str to_string] assms(1))
qed

theorem thrift_roundtrip_witness:
  "conn_stats_from_wire (conn_stats_to_wire default_conn_stats) = default_conn_stats \<and>
   stream_info_from_wire (stream_info_to_wire \<lparr>size_bytes = Some u64_max, attrs = Map.empty\<rparr>) =
     \<lparr>size_bytes = Some u64_max, attrs = Map.empty\<rparr> \<and>
   queue_status_from_wire (\<lambda>s. Some (length s)) (queue_status_to_wire (\<lambda>u. replicate u CHR ''a'')
     \<lparr>active_count = 1, qs_max_concurrent = 2, qs_max_pending = 3, qs_pending = [4, 5]\<rparr>) =
     \<lparr>active_count = 1, qs_max_concurrent = 2, qs_max_pending = 3, qs_pending = [4, 5]\<rparr>"
  using thrift_roundtrip [of "\<lambda>s. Some (length s)" "\<lambda>u. replicate u CHR ''a''" default_conn_stats
      "\<lparr>size_bytes = Some u64_max, attrs = Map.empty\<rparr>"
      "\<lparr>tp_uuid = 0, bytes_transferred = 0, percent_done = None, throughput_bps = 0\<rparr>" Normal
      "\<lparr>active_count = 1, qs_max_concurrent = 2, qs_max_pending = 3, qs_pending = [4, 5]\<rparr>"]
  by (simp add: conn_stats_u64_def default_conn_stats_def)

end
