(* ===== verification/Callback.thy ===== *)
theory Callback
  imports Thrift_Mapping
begin

text \<open>
  The callback agent (quelay-agent/src/callback.rs): the thread that owns the Thrift connection to
  the local client and turns \<open>CallbackCmd\<close> messages into calls on it.

  The connection is the thrift crate's: \<open>connect\<close> says whether an endpoint can be reached, \<open>call\<close>
  performs a call on a client and says whether it succeeded; both are arguments. \<open>ca_calls\<close> records
  the calls the client answered without error.
\<close>

datatype callback_cmd =
    Register string
  | Ping
  | StreamStarted uuid stream_info nat
  | StreamProgress uuid nat "(nat \<times> nat) option"
  | StreamDone uuid nat nat
  | StreamFailed uuid fail_reason string
  | LinkStatus link_state
  | QueueStatus queue_status

datatype wire_call =
    CPing
  | CStreamStarted uuid wire_stream_info int
  | CStreamProgress uuid wire_progress_info
  | CStreamDone uuid int int
  | CStreamFailed uuid fail_reason string
  | CLinkStatusUpdate wire_link_state
  | CQueueStatusUpdate wire_queue_status

record 'c callback_agent =
  ca_client :: "'c option"
  ca_calls :: "wire_call list"

definition callback_new :: "'c callback_agent" where
  "callback_new = \<lparr>ca_client = None, ca_calls = []\<rparr>"

text \<open>\<open>fire\<close>: nothing without a client; a failed call drops the client.\<close>

definition fire :: "('c \<Rightarrow> wire_call \<Rightarrow> bool \<times> 'c) \<Rightarrow> wire_call \<Rightarrow> 'c callback_agent \<Rightarrow> 'c callback_agent" where
  "fire call w a =
     (case ca_client a of
        None \<Rightarrow> a
      | Some c \<Rightarrow>
          (case call c w of
             (True, c') \<Rightarrow> a\<lparr>ca_client := Some c', ca_calls := ca_calls a @ [w]\<rparr>
           | (False, _) \<Rightarrow> a\<lparr>ca_client := None\<rparr>))"

text \<open>One turn of the loop of \<open>run\<close>. The ping has the same effect as \<open>fire\<close>.\<close>

fun callback_step :: "(uuid \<Rightarrow> string) \<Rightarrow> (string \<Rightarrow> 'c option) \<Rightarrow> ('c \<Rightarrow> wire_call \<Rightarrow> bool \<times> 'c) \<Rightarrow>
    callback_cmd \<Rightarrow> 'c callback_agent \<Rightarrow> 'c callback_agent" where
  "callback_step to_string connect call (Register endpoint) a = a\<lparr>ca_client := connect endpoint\<rparr>"
| "callback_step to_string connect call Ping a = fire call CPing a"
| "callback_step to_string connect call (StreamStarted u info port) a =
     fire call (CStreamStarted u (stream_info_to_wire info) (int port)) a"
| "callback_step to_string connect call (StreamProgress u bytes percent) a =
     fire call (CStreamProgress u \<lparr>wp_bytes_transferred = Some (as_i64 bytes), wp_size_bytes = None,
       wp_percent_done = percent\<rparr>) a"
| "callback_step to_string connect call (StreamDone u bytes bytes_wire) a =
     fire call (CStreamDone u (as_i64 bytes) (as_i64 bytes_wire)) a"
| "callback_step to_string connect call (StreamFailed u code reason) a = fire call (CStreamFailed u code reason) a"
| "callback_step to_string connect call (LinkStatus s) a = fire call (CLinkStatusUpdate (link_state_to_wire s)) a"
| "callback_step to_string connect call (QueueStatus s) a =
     fire call (CQueueStatusUpdate (queue_status_to_wire to_string s)) a"

definition callback_run :: "(uuid \<Rightarrow> string) \<Rightarrow> (string \<Rightarrow> 'c option) \<Rightarrow> ('c \<Rightarrow> wire_call \<Rightarrow> bool \<times> 'c) \<Rightarrow>
    callback_cmd list \<Rightarrow> 'c callback_agent \<Rightarrow> 'c callback_agent" where
  "callback_run to_string connect call cmds a = foldl (\<lambda>a c. callback_step to_string connect call c a) a cmds"

section \<open>Properties\<close>

definition is_register :: "callback_cmd \<Rightarrow> bool" where
  "is_register c \<longleftrightarrow> (\<exists>e. c = Register e)"

lemma fire_none [simp]: "ca_client a = None \<Longrightarrow> fire call w a = a"
  by (simp add: fire_def)

lemma callback_step_dead:
  "ca_client a = None \<Longrightarrow> \<not> is_register c \<Longrightarrow> callback_step to_string connect call c a = a"
  by (cases c) (simp_all add: is_register_def)

lemma callback_run_dead:
  "ca_client a = None \<Longrightarrow> \<forall>c \<in> set cmds. \<not> is_register c \<Longrightarrow> callback_run to_string connect call cmds a = a"
  by (induction cmds) (simp_all add: callback_run_def callback_step_dead)



end
