(* ===== verification/Uplink.thy ===== *)
theory Uplink
  imports Stream_Pump Callback
begin

text \<open>
  The sending side of a stream (quelay-agent/src/active_stream.rs): the TCP reader task
  (\<open>run_tcp_reader\<close>, \<open>handle_eof\<close>, \<open>wait_for_spool_space\<close>) that fills the spool, and the ack task
  (\<open>AckTask\<close>) that frees it, signals the pump and reports to the client.

  Both tasks share the spool; the record \<open>uplink\<close> joins their states, and every event is one message
  or one TCP read handled by one of them, or the pump taking a command or exiting. \<open>up_cmds\<close> is the command channel of the pump, \<open>up_notified\<close>
  counts the notifications of \<open>data_ready\<close>, \<open>up_finished\<close> says that the task has deregistered the
  stream and told the session manager. \<open>due\<close> is whether the progress interval has passed.
\<close>

section \<open>State\<close>

datatype reader_phase = TrAccept | TrReading | TrEnded
datatype ack_phase = AtRunning | AtReconnect | AtEnded

record uplink =
  up_uuid :: uuid
  up_size_bytes :: "nat option"
  up_spool :: spool
  up_head_atomic :: nat
  up_reader :: reader_phase
  up_notified :: nat
  up_space_notified :: nat
  up_ack :: ack_phase
  up_bytes_sent :: nat
  up_finish_sent :: bool
  up_cmds :: cmd_channel
  up_wire_start :: nat
  up_callbacks :: "callback_cmd list"
  up_finished :: bool

definition uplink_new :: "uuid \<Rightarrow> stream_info \<Rightarrow> nat \<Rightarrow> nat \<Rightarrow> uplink" where
  "uplink_new u info port wire = \<lparr>up_uuid = u, up_size_bytes = size_bytes info, up_spool = spool_new, up_head_atomic = 0,
     up_reader = TrAccept, up_notified = 0, up_space_notified = 0, up_ack = AtRunning, up_bytes_sent = 0, up_finish_sent = False,
     up_cmds = \<lparr>cc_queue = [], cc_open = True\<rparr>, up_wire_start = wire,
     up_callbacks = [StreamStarted u info port], up_finished = False\<rparr>"

definition up_call :: "callback_cmd \<Rightarrow> uplink \<Rightarrow> uplink" where
  "up_call c u = u\<lparr>up_callbacks := up_callbacks u @ [c]\<rparr>"

section \<open>The TCP reader\<close>

definition tcp_accept :: "bool \<Rightarrow> uplink \<Rightarrow> uplink" where
  "tcp_accept connected u =
     (if connected then u\<lparr>up_reader := TrReading\<rparr>
      else (up_call (StreamFailed (up_uuid u) UNKNOWN ''TCP accept failed'') u)\<lparr>up_reader := TrEnded\<rparr>)"

definition handle_eof :: "uplink \<Rightarrow> uplink" where
  "handle_eof u =
     (if sp_head (up_spool u) = u64_max then u
      else let s = (up_spool u)\<lparr>sp_head := u64_max\<rparr>
           in u\<lparr>up_spool := s, up_head_atomic := head_offset s, up_notified := Suc (up_notified u)\<rparr>)"

text \<open>The result of \<open>tcp.read\<close>: end of file, some bytes (at most the buffer of one chunk), or an error.\<close>

datatype tcp_result = TcpEof | TcpBytes "u8 list" | TcpError

text \<open>One turn of the loop. With less room than a chunk the task sits in \<open>wait_for_spool_space\<close> and does
  not read.\<close>

definition tcp_read :: "tcp_result \<Rightarrow> uplink \<Rightarrow> uplink" where
  "tcp_read res u =
     (if up_reader u \<noteq> TrReading \<or> available (up_spool u) < CHUNK_SIZE then u
      else case res of
             TcpEof \<Rightarrow> (handle_eof u)\<lparr>up_reader := TrEnded\<rparr>
           | TcpBytes bs \<Rightarrow>
               let s = push bs (up_spool u)
               in u\<lparr>up_spool := s, up_head_atomic := head_offset s, up_notified := Suc (up_notified u)\<rparr>
           | TcpError \<Rightarrow>
               (handle_eof (up_call (StreamFailed (up_uuid u) SENDER_CLOSED ''TCP read error'') u))\<lparr>up_reader := TrEnded\<rparr>)"

section \<open>The ack task\<close>

datatype ack_msg = AckMsg nat | DoneMsg | ErrorMsg nat string | StreamErrorMsg

fun ack_msg_of :: "quelay_error + wormhole_msg \<Rightarrow> ack_msg" where
  "ack_msg_of (Inr (Ack n)) = AckMsg n"
| "ack_msg_of (Inr Done) = DoneMsg"
| "ack_msg_of (Inr (Error code reason)) = ErrorMsg code reason"
| "ack_msg_of (Inl e) = StreamErrorMsg"

definition try_send_finish :: "uplink \<Rightarrow> uplink" where
  "try_send_finish u =
     (if up_finish_sent u then u
      else if sp_head (up_spool u) = u64_max
      then u\<lparr>up_finish_sent := True, up_cmds := snd (finish (up_cmds u))\<rparr>
      else u)"

definition on_ack :: "bool \<Rightarrow> nat \<Rightarrow> uplink \<Rightarrow> uplink" where
  "on_ack due bytes u =
     (let prev = sp_bytes_acked (up_spool u);
          u1 = u\<lparr>up_spool := ack bytes (up_spool u)\<rparr>
      in if prev < bytes
         then let sent = max (up_bytes_sent u) bytes;
                  u2 = u1\<lparr>up_bytes_sent := sent, up_space_notified := Suc (up_space_notified u)\<rparr>
              in if due then up_call (StreamProgress (up_uuid u) sent (map_option (\<lambda>total. (sent, total)) (up_size_bytes u))) u2
                 else u2
         else u1)"

text \<open>The end of \<open>run\<close>: deregistration and \<open>StreamFinished\<close>.\<close>

definition ack_end :: "uplink \<Rightarrow> uplink" where
  "ack_end u = u\<lparr>up_ack := AtEnded, up_finished := True\<rparr>"

text \<open>A message from the ack reader (\<open>None\<close>: it is gone), handled in the loop of \<open>run_inner\<close>.
  \<open>wire\<close> is the session's wire counter then.\<close>

definition ack_message :: "bool \<Rightarrow> nat \<Rightarrow> ack_msg option \<Rightarrow> uplink \<Rightarrow> uplink" where
  "ack_message due wire msg u =
     (if up_ack u \<noteq> AtRunning then u
      else case msg of
             Some (AckMsg n) \<Rightarrow> try_send_finish (on_ack due n (try_send_finish u))
           | Some DoneMsg \<Rightarrow>
               let u1 = try_send_finish u
               in ack_end (up_call (StreamDone (up_uuid u1) (up_bytes_sent u1) (saturating_sub_u64 wire (up_wire_start u1))) u1)
           | Some (ErrorMsg code reason) \<Rightarrow>
               let u1 = try_send_finish u
               in ack_end (up_call (StreamFailed (up_uuid u1) (as_i32 code) reason) u1)
           | Some StreamErrorMsg \<Rightarrow>
               let u1 = try_send_finish u
               in try_send_finish (u1\<lparr>up_cmds := link_down (up_cmds u1), up_ack := AtReconnect\<rparr>)
           | None \<Rightarrow>
               let u1 = try_send_finish (try_send_finish u)
               in ack_end (up_call (StreamFailed (up_uuid u1) LINK_FAILED ''ack reader exited without Done'') u1))"

text \<open>\<open>data_ready\<close> fires, in either wait of the task.\<close>

definition ack_data_ready :: "uplink \<Rightarrow> uplink" where
  "ack_data_ready u = (if up_ack u = AtEnded then u else try_send_finish u)"

text \<open>What \<open>stream_rx\<close> yields during a reconnect: a new stream, with its write half and whether the ack
  reader takes its read half, or that the handle was dropped.\<close>

definition ack_stream :: "(writer \<times> bool) option \<Rightarrow> uplink \<Rightarrow> uplink" where
  "ack_stream new_stream u =
     (if up_ack u \<noteq> AtReconnect then u
      else case new_stream of
             Some (tx, reader_ok) \<Rightarrow>
               if \<not> reader_ok then ack_end u
               else (case link_up tx (up_cmds u) of
                       (Inl _, c) \<Rightarrow> ack_end (u\<lparr>up_cmds := c\<rparr>)
                     | (Inr _, c) \<Rightarrow> try_send_finish (u\<lparr>up_cmds := c, up_finish_sent := False, up_ack := AtRunning\<rparr>))
           | None \<Rightarrow> ack_end (up_call (StreamFailed (up_uuid u) LINK_FAILED ''link failed permanently'') u))"

section \<open>The two tasks together\<close>

datatype uplink_event =
    EvTcpAccept bool
  | EvTcpRead tcp_result
  | EvAck bool nat "ack_msg option"
  | EvDataReady
  | EvStream "(writer \<times> bool) option"
  | EvPumpTake
  | EvPumpExit

fun uplink_step :: "uplink_event \<Rightarrow> uplink \<Rightarrow> uplink" where
  "uplink_step (EvTcpAccept ok) u = (if up_reader u = TrAccept then tcp_accept ok u else u)"
| "uplink_step (EvTcpRead r) u = tcp_read r u"
| "uplink_step (EvAck due wire m) u = ack_message due wire m u"
| "uplink_step EvDataReady u = ack_data_ready u"
| "uplink_step (EvStream s) u = ack_stream s u"
| "uplink_step EvPumpTake u = u\<lparr>up_cmds := (up_cmds u)\<lparr>cc_queue := tl (cc_queue (up_cmds u))\<rparr>\<rparr>"
| "uplink_step EvPumpExit u = u\<lparr>up_cmds := (up_cmds u)\<lparr>cc_open := False\<rparr>\<rparr>"

definition uplink_run :: "uplink_event list \<Rightarrow> uplink \<Rightarrow> uplink" where
  "uplink_run evs u = foldl (\<lambda>u ev. uplink_step ev u) u evs"

text \<open>The client's bytes: those the reader took from the socket.\<close>

fun taken :: "uplink_event \<Rightarrow> uplink \<Rightarrow> u8 list" where
  "taken (EvTcpRead (TcpBytes bs)) u = (if up_reader u \<noteq> TrReading \<or> available (up_spool u) < CHUNK_SIZE then [] else bs)"
| "taken ev u = []"

fun client_bytes :: "uplink_event list \<Rightarrow> uplink \<Rightarrow> u8 list" where
  "client_bytes [] u = []"
| "client_bytes (ev # evs) u = taken ev u @ client_bytes evs (uplink_step ev u)"

section \<open>The spool follows the client\<close>

definition uplink_inv :: "u8 list \<Rightarrow> uplink \<Rightarrow> bool" where
  "uplink_inv src u \<longleftrightarrow> sp.stores src (up_spool u) \<and> head_offset (up_spool u) = length src \<and> up_head_atomic u = length src \<and>
     (up_reader u \<noteq> TrEnded \<longrightarrow> \<not> spool_eof (up_spool u))"

text \<open>What the environment may do: a read returns between one byte and a full buffer, an ack is a u64.\<close>

fun valid_event :: "uplink_event \<Rightarrow> bool" where
  "valid_event (EvTcpRead (TcpBytes bs)) \<longleftrightarrow> 0 < length bs \<and> length bs \<le> CHUNK_SIZE"
| "valid_event (EvAck due wire (Some (AckMsg n))) \<longleftrightarrow> n \<le> u64_max"
| "valid_event ev \<longleftrightarrow> True"

lemma try_send_finish_simps [simp]:
  "up_spool (try_send_finish u) = up_spool u" "up_reader (try_send_finish u) = up_reader u"
  "up_head_atomic (try_send_finish u) = up_head_atomic u" "up_ack (try_send_finish u) = up_ack u"
  "up_callbacks (try_send_finish u) = up_callbacks u" "up_uuid (try_send_finish u) = up_uuid u"
  "up_bytes_sent (try_send_finish u) = up_bytes_sent u" "up_finished (try_send_finish u) = up_finished u"
  by (simp_all add: try_send_finish_def)

lemma up_call_simps [simp]:
  "up_spool (up_call c u) = up_spool u" "up_reader (up_call c u) = up_reader u" "up_head_atomic (up_call c u) = up_head_atomic u"
  "up_ack (up_call c u) = up_ack u" "up_callbacks (up_call c u) = up_callbacks u @ [c]" "up_finished (up_call c u) = up_finished u"
  by (simp_all add: up_call_def)

lemma ack_end_simps [simp]:
  "up_spool (ack_end u) = up_spool u" "up_reader (ack_end u) = up_reader u" "up_head_atomic (ack_end u) = up_head_atomic u"
  "up_ack (ack_end u) = AtEnded" "up_callbacks (ack_end u) = up_callbacks u" "up_finished (ack_end u)"
  by (simp_all add: ack_end_def)

lemma on_ack_simps [simp]:
  "up_spool (on_ack due n u) = ack n (up_spool u)" "up_reader (on_ack due n u) = up_reader u"
  "up_head_atomic (on_ack due n u) = up_head_atomic u" "up_ack (on_ack due n u) = up_ack u" "up_uuid (on_ack due n u) = up_uuid u"
  by (simp_all add: on_ack_def Let_def up_call_def)

text \<open>Nothing but an ack changes the spool on the ack task's side.\<close>

lemma ack_side_frame:
  "up_reader (ack_message due wire m u) = up_reader u" "up_head_atomic (ack_message due wire m u) = up_head_atomic u"
  "up_spool (ack_message due wire m u) =
     (case m of Some (AckMsg n) \<Rightarrow> if up_ack u = AtRunning then ack n (up_spool u) else up_spool u | _ \<Rightarrow> up_spool u)"
  "up_spool (ack_stream ns u) = up_spool u" "up_reader (ack_stream ns u) = up_reader u" "up_head_atomic (ack_stream ns u) = up_head_atomic u"
  by (auto simp: ack_message_def ack_stream_def Let_def split: option.splits ack_msg.splits prod.splits sum.splits)

lemma uplink_inv_ack:
  assumes "uplink_inv src u" "n \<le> u64_max" "up_spool u' = ack n (up_spool u)" "up_reader u' = up_reader u" "up_head_atomic u' = up_head_atomic u"
  shows "uplink_inv src u'"
proof -
  have "wf_spool (up_spool u)" using assms(1) by (simp add: uplink_inv_def sp.stores_def)
  then show ?thesis using assms sp.free_stores [of src "up_spool u" n] sp.free_top [of "up_spool u" n] sp.free_ok [of "up_spool u" n]
    by (simp add: uplink_inv_def)
qed

lemma uplink_inv_frame:
  "uplink_inv src u \<Longrightarrow> up_spool u' = up_spool u \<Longrightarrow> up_reader u' = up_reader u \<Longrightarrow> up_head_atomic u' = up_head_atomic u \<Longrightarrow> uplink_inv src u'"
  by (simp add: uplink_inv_def)

lemma uplink_inv_eof:
  assumes "uplink_inv src u"
  shows "uplink_inv src ((handle_eof (u\<lparr>up_callbacks := cbs\<rparr>))\<lparr>up_reader := TrEnded\<rparr>)"
  using assms spool_mark_eof [of src "up_spool u"] by (simp add: uplink_inv_def handle_eof_def Let_def)

lemma uplink_inv_read:
  assumes inv: "uplink_inv src u" and bs: "length bs \<le> CHUNK_SIZE" "length src + length bs < u64_max"
    and go: "up_reader u = TrReading" "CHUNK_SIZE \<le> available (up_spool u)"
  shows "uplink_inv (src @ bs) (tcp_read (TcpBytes bs) u)"
proof -
  have s: "sp.stores src (up_spool u)" "head_offset (up_spool u) = length src" "\<not> spool_eof (up_spool u)"
    using inv go(1) by (simp_all add: uplink_inv_def)
  have room: "length bs \<le> available (up_spool u)" "head_offset (up_spool u) + length bs < u64_max" using bs go(2) s(2) by simp_all
  have wf: "wf_spool (up_spool u)" using s(1) by (simp add: sp.stores_def)
  note p = sp.put_stores_next [OF s room] sp.put_ok [OF wf s(3) room]
  then show ?thesis using inv go by (simp add: uplink_inv_def tcp_read_def Let_def)
qed

lemma uplink_inv_step:
  assumes inv: "uplink_inv src u" and v: "valid_event ev" and n: "length src + length (taken ev u) < u64_max"
  shows "uplink_inv (src @ taken ev u) (uplink_step ev u)"
proof (cases ev)
  case (EvTcpAccept ok)
  then show ?thesis using inv by (auto simp: tcp_accept_def uplink_inv_def)
next
  case (EvTcpRead r)
  show ?thesis
  proof (cases "up_reader u \<noteq> TrReading \<or> available (up_spool u) < CHUNK_SIZE")
    case True
    then show ?thesis using inv EvTcpRead by (cases r) (auto simp: tcp_read_def)
  next
    case False
    then show ?thesis using inv v n EvTcpRead uplink_inv_eof [OF inv, of "up_callbacks u"]
        uplink_inv_eof [OF inv, of "up_callbacks u @ [StreamFailed (up_uuid u) SENDER_CLOSED ''TCP read error'']"]
      by (cases r) (auto simp: uplink_inv_read, simp_all add: tcp_read_def up_call_def)
  qed
next
  case (EvAck due wire m)
  show ?thesis
  proof (cases "up_ack u = AtRunning \<and> (\<exists>n. m = Some (AckMsg n))")
    case True
    then show ?thesis using inv v EvAck uplink_inv_ack [OF inv] by (auto simp: ack_side_frame)
  next
    case False
    then have "up_spool (ack_message due wire m u) = up_spool u"
      by (auto simp: ack_side_frame(3) split: option.split ack_msg.split)
    then show ?thesis using inv EvAck uplink_inv_frame [OF inv] by (simp add: ack_side_frame(1,2))
  qed
next
  case EvDataReady
  then show ?thesis using inv uplink_inv_frame [OF inv, of "try_send_finish u"] by (simp add: ack_data_ready_def)
next
  case (EvStream s)
  then show ?thesis using inv uplink_inv_frame [OF inv] by (simp add: ack_side_frame)
qed (use inv in \<open>simp_all add: uplink_inv_def\<close>)

lemma uplink_inv_run:
  "uplink_inv src u \<Longrightarrow> \<forall>ev \<in> set evs. valid_event ev \<Longrightarrow> length src + length (client_bytes evs u) < u64_max \<Longrightarrow>
     uplink_inv (src @ client_bytes evs u) (uplink_run evs u)"
proof (induction evs arbitrary: src u)
  case (Cons ev evs)
  have "uplink_inv (src @ taken ev u) (uplink_step ev u)" using Cons.prems by (intro uplink_inv_step) simp_all
  then show ?case using Cons.IH [of "src @ taken ev u" "uplink_step ev u"] Cons.prems by (simp add: uplink_run_def)
qed (simp add: uplink_run_def)

lemma uplink_inv_new: "uplink_inv [] (uplink_new u info port wire)"
  by (simp add: uplink_inv_def uplink_new_def sp.stores_def wf_spool_def spool_new_def head_offset_def u64_max_def spool_eof_def)

section \<open>Properties\<close>

text \<open>C14 (invariant): the spool never loses or invents a byte of the client. Whatever sequence of TCP reads,
  acknowledgements, link failures, reconnects and end-of-stream marks the two tasks meet, the spool
  holds exactly the client's bytes from A to T, T is the number of bytes read from the client, and
  what it holds never exceeds its capacity: the reader stops instead.\<close>

theorem uplink_spool_holds_client_bytes:
  assumes "\<forall>ev \<in> set evs. valid_event ev" and "length (client_bytes evs (uplink_new i info port wire)) < u64_max"
    and "u = uplink_run evs (uplink_new i info port wire)"
  shows "sp.stores (client_bytes evs (uplink_new i info port wire)) (up_spool u) \<and>
    head_offset (up_spool u) = length (client_bytes evs (uplink_new i info port wire)) \<and>
    up_head_atomic u = head_offset (up_spool u) \<and> length (sp_buf (up_spool u)) \<le> SPOOL_CAPACITY"
proof -
  have "uplink_inv (client_bytes evs (uplink_new i info port wire)) u"
    using uplink_inv_run [OF uplink_inv_new assms(1)] assms(2,3) by simp
  moreover from this have "wf_spool (up_spool u)" by (simp add: uplink_inv_def sp.stores_def)
  then have "length (sp_buf (up_spool u)) \<le> SPOOL_CAPACITY" by (simp add: wf_spool_def)
  ultimately show ?thesis by (simp add: uplink_inv_def)
qed

definition demo_uplink :: "uplink_event list" where
  "demo_uplink = [EvTcpAccept True, EvTcpRead (TcpBytes [10, 20]), EvAck False 0 (Some (AckMsg 1)), EvTcpRead (TcpBytes [30]), EvTcpRead TcpEof]"

lemma demo_uplink_client: "client_bytes demo_uplink (uplink_new 7 \<lparr>size_bytes = None, attrs = Map.empty\<rparr> 4000 0) = [10, 20, 30]"
  by (simp add: demo_uplink_def uplink_new_def tcp_accept_def tcp_read_def spool_new_def available_def SPOOL_CAPACITY_def CHUNK_SIZE_def
      sub_u64_def push_def ack_message_def try_send_finish_def on_ack_def ack_def Let_def add_u64_def u64_max_def)

theorem uplink_spool_holds_client_bytes_witness:
  "\<exists>u. u = uplink_run demo_uplink (uplink_new 7 \<lparr>size_bytes = None, attrs = Map.empty\<rparr> 4000 0) \<and>
     sp.stores [10, 20, 30] (up_spool u) \<and> head_offset (up_spool u) = 3"
proof -
  have "\<forall>ev \<in> set demo_uplink. valid_event ev" by (simp add: demo_uplink_def CHUNK_SIZE_def u64_max_def)
  from uplink_spool_holds_client_bytes [OF this _ refl, of 7 "\<lparr>size_bytes = None, attrs = Map.empty\<rparr>" 4000 0]
  show ?thesis by (simp add: demo_uplink_client u64_max_def)
qed

lemma finish_queue: "cc_queue (snd (finish c)) = (if cc_open c then cc_queue c @ [Finish] else cc_queue c)"
  by (simp add: finish_def)

text \<open>Commands of the pump and end of the client's stream.\<close>

definition finish_inv :: "uplink \<Rightarrow> bool" where
  "finish_inv u \<longleftrightarrow> (up_finish_sent u \<or> Finish \<in> set (cc_queue (up_cmds u)) \<longrightarrow> spool_eof (up_spool u))"

lemma try_send_finish_inv: "finish_inv u \<Longrightarrow> finish_inv (try_send_finish u)"
  by (simp add: finish_inv_def try_send_finish_def finish_queue spool_eof_def)

lemma try_send_finish_sent: "spool_eof (up_spool u) \<Longrightarrow> up_finish_sent (try_send_finish u)"
  by (simp add: try_send_finish_def spool_eof_def)

lemma ack_eof: "spool_eof (ack n s) = spool_eof s"
  by (simp add: ack_def spool_eof_def Let_def)

lemma on_ack_cmds [simp]: "up_cmds (on_ack due n u) = up_cmds u" "up_finish_sent (on_ack due n u) = up_finish_sent u"
  by (simp_all add: on_ack_def Let_def up_call_def)

lemma finish_inv_cong:
  "finish_inv u \<Longrightarrow> up_cmds u' = up_cmds u \<Longrightarrow> up_finish_sent u' = up_finish_sent u \<Longrightarrow>
     spool_eof (up_spool u) \<longrightarrow> spool_eof (up_spool u') \<Longrightarrow> finish_inv u'"
  by (auto simp: finish_inv_def)

lemma finish_inv_message: "finish_inv u \<Longrightarrow> finish_inv (ack_message due wire m u)"
proof (cases "up_ack u = AtRunning")
  case True
  assume inv: "finish_inv u"
  note f = try_send_finish_inv [OF inv]
  have a: "finish_inv (on_ack due n (try_send_finish u))" for n
    using f by (rule finish_inv_cong) (simp_all add: ack_eof)
  have d: "finish_inv ((try_send_finish u)\<lparr>up_cmds := link_down (up_cmds (try_send_finish u)), up_ack := AtReconnect\<rparr>)"
    using f by (auto simp: finish_inv_def link_down_def split: if_splits)
  have e: "finish_inv (ack_end (up_call c v))" if "finish_inv v" for c v
    using that by (rule finish_inv_cong) (simp_all add: ack_end_def up_call_def)
  show ?thesis using True f a d e try_send_finish_inv
    by (simp add: ack_message_def Let_def split: option.split ack_msg.split)
qed (simp add: ack_message_def)

lemma finish_inv_stream: "finish_inv u \<Longrightarrow> finish_inv (ack_stream ns u)"
proof (cases "up_ack u = AtReconnect")
  case True
  assume inv: "finish_inv u"
  have e: "finish_inv (ack_end v)" if "finish_inv v" for v
    using that by (rule finish_inv_cong) (simp_all add: ack_end_def)
  have "finish_inv (up_call c u)" for c using inv by (rule finish_inv_cong) (simp_all add: up_call_def)
  moreover have "finish_inv (try_send_finish (u\<lparr>up_cmds := (up_cmds u)\<lparr>cc_queue := cc_queue (up_cmds u) @ [LinkUp tx]\<rparr>, up_finish_sent := False, up_ack := AtRunning\<rparr>))" for tx
    using inv by (intro try_send_finish_inv) (auto simp: finish_inv_def)
  ultimately show ?thesis using True inv e
    by (auto simp: ack_stream_def link_up_def split: option.split)
qed (simp add: ack_stream_def)

lemma finish_inv_step:
  assumes inv: "finish_inv u" and u: "uplink_inv src u"
  shows "finish_inv (uplink_step ev u)"
proof (cases ev)
  case (EvTcpRead r)
  have "up_reader u = TrReading \<longrightarrow> \<not> spool_eof (up_spool u)" using u by (simp add: uplink_inv_def)
  then show ?thesis using inv EvTcpRead
    by (cases r) (auto simp: finish_inv_def tcp_read_def handle_eof_def up_call_def spool_eof_def Let_def)
next
  case EvPumpTake
  have "set (tl q) \<subseteq> set q" for q :: "rate_cmd list" by (cases q) auto
  then show ?thesis using inv EvPumpTake by (auto simp: finish_inv_def)
qed (use inv in \<open>auto simp: finish_inv_message finish_inv_stream ack_data_ready_def try_send_finish_inv\<close>,
     use inv in \<open>auto simp: finish_inv_def tcp_accept_def up_call_def\<close>)

lemma finish_inv_run:
  "finish_inv u \<Longrightarrow> uplink_inv src u \<Longrightarrow> \<forall>ev \<in> set evs. valid_event ev \<Longrightarrow> length src + length (client_bytes evs u) < u64_max \<Longrightarrow>
     finish_inv (uplink_run evs u)"
proof (induction evs arbitrary: src u)
  case (Cons ev evs)
  have "uplink_inv (src @ taken ev u) (uplink_step ev u)" using Cons.prems by (intro uplink_inv_step) simp_all
  then show ?case using Cons.IH [of "uplink_step ev u" "src @ taken ev u"] Cons.prems finish_inv_step by (simp add: uplink_run_def)
qed (simp add: uplink_run_def)





lemma no_ack_bytes_sent:
  "\<forall>due wire n. EvAck due wire (Some (AckMsg n)) \<noteq> ev \<Longrightarrow> up_bytes_sent (uplink_step ev u) = up_bytes_sent u \<and>
     up_uuid (uplink_step ev u) = up_uuid u \<and> up_wire_start (uplink_step ev u) = up_wire_start u"
  by (cases ev) (auto simp: tcp_accept_def tcp_read_def handle_eof_def up_call_def ack_message_def ack_data_ready_def ack_stream_def
      try_send_finish_def ack_end_def Let_def split: option.splits ack_msg.splits tcp_result.splits prod.splits sum.splits if_splits)

lemma no_ack_run:
  "\<forall>due wire n. EvAck due wire (Some (AckMsg n)) \<notin> set evs \<Longrightarrow>
     up_bytes_sent (uplink_run evs u) = up_bytes_sent u \<and> up_uuid (uplink_run evs u) = up_uuid u \<and>
     up_wire_start (uplink_run evs u) = up_wire_start u"
proof (induction evs arbitrary: u)
  case (Cons ev evs)
  then show ?case using no_ack_bytes_sent [of ev u] Cons.IH [of "uplink_step ev u"] by (auto simp: uplink_run_def)
qed (simp add: uplink_run_def)

text \<open>The sender reports what was acknowledged, not what was transferred. Acknowledgements come
  every 64 KiB, so a transfer that ends before the first one is reported as \<open>stream_done\<close> with 0 bytes.\<close>

theorem short_transfer_reports_zero:
  assumes "\<forall>due wire n. EvAck due wire (Some (AckMsg n)) \<notin> set evs"
    and "u = uplink_run evs (uplink_new i info port start)" and "up_ack u = AtRunning"
  shows "\<exists>cbs. up_callbacks (uplink_step (EvAck due wire (Some DoneMsg)) u) = cbs @ [StreamDone i 0 (wire - start)]"
  using no_ack_run [OF assms(1), of "uplink_new i info port start"] assms(2,3)
  by (simp add: ack_message_def try_send_finish_def Let_def uplink_new_def saturating_sub_u64_def)

theorem short_transfer_reports_zero_witness:
  "\<exists>cbs. up_callbacks (uplink_step (EvAck False 900 (Some DoneMsg))
      (uplink_run [EvTcpAccept True, EvTcpRead (TcpBytes [10, 20, 30]), EvTcpRead TcpEof]
        (uplink_new 7 \<lparr>size_bytes = None, attrs = Map.empty\<rparr> 4000 100))) = cbs @ [StreamDone 7 0 800]"
proof -
  let ?evs = "[EvTcpAccept True, EvTcpRead (TcpBytes [10, 20, 30]), EvTcpRead TcpEof]"
  let ?u = "uplink_run ?evs (uplink_new 7 \<lparr>size_bytes = None, attrs = Map.empty\<rparr> 4000 100)"
  have "up_ack ?u = AtRunning"
    by (simp add: uplink_run_def uplink_new_def tcp_accept_def tcp_read_def handle_eof_def Let_def)
  then show ?thesis using short_transfer_reports_zero [of ?evs ?u, OF _ refl, of False 900] by simp
qed

end
