(* ===== verification/Downlink.thy ===== *)
theory Downlink
  imports Framing Callback
begin

text \<open>
  The receiving side of a stream: \<open>run_downlink\<close> and \<open>deliver_reconnect_stream\<close> of
  quelay-agent/src/active_stream.rs.

  The task is a state machine: \<open>DnAccept\<close> before the TCP client has connected, \<open>DnPumping\<close> in the
  read loop, \<open>DnWaiting\<close> for a new QUIC stream, \<open>DnEnded\<close>. \<open>downlink_read\<close> is one turn of the loop
  on the result of \<open>read_chunk\<close>. The TCP socket of the client is a writer; \<open>dn_feedback\<close> holds the
  messages the task wrote back, and \<open>due\<close> says whether the progress interval has passed.
\<close>

section \<open>State\<close>

datatype downlink_phase = DnAccept | DnPumping | DnWaiting | DnEnded

record downlink =
  dn_uuid :: uuid
  dn_size_bytes :: "nat option"
  dn_written :: nat
  dn_written_atomic :: nat
  dn_last_acked :: nat
  dn_tcp :: writer
  dn_feedback :: "wormhole_msg list"
  dn_fin_sent :: bool
  dn_callbacks :: "callback_cmd list"
  dn_phase :: downlink_phase

definition downlink_new :: "uuid \<Rightarrow> stream_info \<Rightarrow> nat \<Rightarrow> writer \<Rightarrow> downlink" where
  "downlink_new u info port tcp = \<lparr>dn_uuid = u, dn_size_bytes = size_bytes info, dn_written = 0, dn_written_atomic = 0,
     dn_last_acked = 0, dn_tcp = tcp, dn_feedback = [], dn_fin_sent = False,
     dn_callbacks = [StreamStarted u info port], dn_phase = DnAccept\<rparr>"

text \<open>Ending the task with an error reported to both ends.\<close>

definition dn_fail :: "string \<Rightarrow> string \<Rightarrow> downlink \<Rightarrow> downlink" where
  "dn_fail wire_reason reason d = d\<lparr>
     dn_feedback := dn_feedback d @ [Error (nat UNKNOWN) wire_reason],
     dn_callbacks := dn_callbacks d @ [StreamFailed (dn_uuid d) UNKNOWN reason],
     dn_phase := DnEnded\<rparr>"

definition downlink_accept :: "bool \<Rightarrow> downlink \<Rightarrow> downlink" where
  "downlink_accept connected d =
     (if connected
      then d\<lparr>dn_written := dn_written_atomic d, dn_last_acked := dn_written_atomic d, dn_phase := DnPumping\<rparr>
      else dn_fail ''TCP accept failed'' ''TCP accept failed'' d)"

section \<open>The read loop\<close>

definition on_chunk :: "bool \<Rightarrow> chunk \<Rightarrow> downlink \<Rightarrow> downlink" where
  "on_chunk due c d =
     (let off = chunk_offset c; pl = chunk_payload c; w = dn_written d in
      if add_u64 off (length pl) \<le> w then d
      else let skip = (if off < w then w - off else 0) in
      if w < off then dn_fail ''chunk gap'' ''chunk offset gap: pump logic error'' d
      else let to_write = drop skip pl in
      case (if to_write = [] then (Inr (), dn_tcp d) else write_all to_write ''TCP write error'' (dn_tcp d)) of
        (Inl _, tcp) \<Rightarrow> dn_fail ''TCP write error'' ''TCP write error'' (d\<lparr>dn_tcp := tcp\<rparr>)
      | (Inr _, tcp) \<Rightarrow>
          let w' = add_u64 w (length to_write);
              d1 = (if to_write = [] then d
                    else d\<lparr>dn_tcp := tcp, dn_written := w', dn_written_atomic := w',
                       dn_callbacks := dn_callbacks d @
                         (if due then [StreamProgress (dn_uuid d) w' (map_option (\<lambda>total. (w', total)) (dn_size_bytes d))] else [])\<rparr>)
          in if ACK_INTERVAL \<le> sub_u64 (dn_written d1) (dn_last_acked d1)
             then d1\<lparr>dn_last_acked := dn_written d1, dn_feedback := dn_feedback d1 @ [Ack (dn_written d1)]\<rparr>
             else d1)"

definition downlink_read :: "bool \<Rightarrow> quelay_error + chunk option \<Rightarrow> downlink \<Rightarrow> downlink" where
  "downlink_read due res d =
     (case dn_phase d of
        DnPumping \<Rightarrow>
          (case res of
             Inr None \<Rightarrow>
               d\<lparr>dn_feedback := dn_feedback d @ [Done], dn_fin_sent := True,
                 dn_callbacks := dn_callbacks d @ [StreamDone (dn_uuid d) (dn_written d) 0], dn_phase := DnEnded\<rparr>
           | Inr (Some c) \<Rightarrow> on_chunk due c d
           | Inl _ \<Rightarrow> d\<lparr>dn_phase := DnWaiting\<rparr>)
      | _ \<Rightarrow> d)"

text \<open>What \<open>stream_rx\<close> yields while the task waits: a new stream, or that the handle is gone.\<close>

definition downlink_stream :: "bool \<Rightarrow> downlink \<Rightarrow> downlink" where
  "downlink_stream fresh d =
     (case dn_phase d of
        DnWaiting \<Rightarrow>
          (if fresh then d\<lparr>dn_phase := DnPumping\<rparr>
           else d\<lparr>dn_callbacks := dn_callbacks d @ [StreamFailed (dn_uuid d) LINK_FAILED ''link failed permanently''],
                  dn_phase := DnEnded\<rparr>)
      | _ \<Rightarrow> d)"

text \<open>The task as a whole: whatever sequence of accept, read results and fresh streams it meets.\<close>

datatype downlink_event = Accepted bool | Read bool "quelay_error + chunk option" | Fresh bool

fun downlink_step :: "downlink_event \<Rightarrow> downlink \<Rightarrow> downlink" where
  "downlink_step (Accepted ok) d = (if dn_phase d = DnAccept then downlink_accept ok d else d)"
| "downlink_step (Read due r) d = downlink_read due r d"
| "downlink_step (Fresh ok) d = downlink_stream ok d"

definition downlink_run :: "downlink_event list \<Rightarrow> downlink \<Rightarrow> downlink" where
  "downlink_run evs d = foldl (\<lambda>d ev. downlink_step ev d) d evs"

section \<open>The handle\<close>

record 's downlink_handle =
  dh_queue :: "'s list"
  dh_open :: bool
  dh_bytes_written :: nat

datatype reconnect_result = GapDropped | NotDelivered | Delivered

definition deliver_reconnect_stream ::
  "'s downlink_handle \<Rightarrow> nat \<Rightarrow> 's \<Rightarrow> reconnect_result \<times> 's downlink_handle" where
  "deliver_reconnect_stream h replay_from new_stream =
     (if dh_bytes_written h < replay_from then (GapDropped, h)
      else if dh_open h \<and> length (dh_queue h) < 2
      then (Delivered, h\<lparr>dh_queue := dh_queue h @ [new_stream]\<rparr>)
      else (NotDelivered, h))"

section \<open>Delivery\<close>

text \<open>A chunk of the stream, and what the receiver's client has: the first W bytes of the stream,
  exactly, while the task runs and after a normal end; after a failed TCP write perhaps a few more.\<close>

definition chunk_of :: "u8 list \<Rightarrow> chunk \<Rightarrow> bool" where
  "chunk_of src c \<longleftrightarrow> chunk_offset c + length (chunk_payload c) \<le> length src \<and>
     chunk_payload c = take (length (chunk_payload c)) (drop (chunk_offset c) src)"

definition delivered :: "u8 list \<Rightarrow> downlink \<Rightarrow> bool" where
  "delivered src d \<longleftrightarrow> dn_written d \<le> length src \<and> dn_written_atomic d = dn_written d \<and> dn_last_acked d \<le> dn_written d \<and>
     prefix (take (dn_written d) src) (wr_bytes (dn_tcp d)) \<and> prefix (wr_bytes (dn_tcp d)) src \<and>
     (dn_phase d \<noteq> DnEnded \<or> dn_fin_sent d \<longrightarrow> wr_bytes (dn_tcp d) = take (dn_written d) src) \<and>
     (dn_phase d \<noteq> DnEnded \<longrightarrow> \<not> dn_fin_sent d) \<and>
     (\<forall>n. Ack n \<in> set (dn_feedback d) \<longrightarrow> n \<le> dn_written d)"

lemma chunk_of_tail:
  assumes "chunk_of src c" "chunk_offset c \<le> w" "w < chunk_offset c + length (chunk_payload c)"
  shows "drop (w - chunk_offset c) (chunk_payload c) = take (chunk_offset c + length (chunk_payload c) - w) (drop w src)"
proof -
  have "drop (w - chunk_offset c) (chunk_payload c) =
      drop (w - chunk_offset c) (take (length (chunk_payload c)) (drop (chunk_offset c) src))"
    using assms(1) by (simp add: chunk_of_def)
  then show ?thesis using take_drop_prefix [OF assms(2)] by simp
qed

text \<open>A chunk with new bytes: what is written to the client, and the two ends of that write.\<close>

definition accepted :: "bool \<Rightarrow> nat \<Rightarrow> writer \<Rightarrow> downlink \<Rightarrow> downlink" where
  "accepted due e tcp d =
     (let d1 = d\<lparr>dn_tcp := tcp, dn_written := e, dn_written_atomic := e, dn_callbacks := dn_callbacks d @
            (if due then [StreamProgress (dn_uuid d) e (map_option (\<lambda>total. (e, total)) (dn_size_bytes d))] else [])\<rparr>
      in if ACK_INTERVAL \<le> e - dn_last_acked d
         then d1\<lparr>dn_last_acked := e, dn_feedback := dn_feedback d @ [Ack e]\<rparr> else d1)"

lemma on_chunk_write:
  assumes c: "c = Chunk off pl" and o: "off \<le> dn_written d" "dn_written d < off + length pl" "off + length pl \<le> u64_max"
    and la: "dn_last_acked d \<le> dn_written d"
    and wa: "write_all (drop (dn_written d - off) pl) ''TCP write error'' (dn_tcp d) = (r, tcp)"
  shows "on_chunk due c d = (case r of
      Inl _ \<Rightarrow> dn_fail ''TCP write error'' ''TCP write error'' (d\<lparr>dn_tcp := tcp\<rparr>)
    | Inr _ \<Rightarrow> accepted due (off + length pl) tcp d)"
proof -
  have "add_u64 off (length pl) = off + length pl" using o(3) by simp
  moreover have "(if off < dn_written d then dn_written d - off else 0) = dn_written d - off" using o(1) by simp
  moreover have ne: "drop (dn_written d - off) pl \<noteq> []" using o by simp
  moreover have "add_u64 (dn_written d) (length (drop (dn_written d - off) pl)) = off + length pl" using o by simp
  moreover have "sub_u64 (off + length pl) (dn_last_acked d) = off + length pl - dn_last_acked d" using o la by simp
  ultimately show ?thesis using o(1,2) wa
    unfolding on_chunk_def accepted_def c chunk.sel Let_def by (cases r) simp_all
qed

text \<open>The outcomes of a chunk of the stream.\<close>

lemma on_chunk_cases:
  assumes d: "delivered src d" "dn_phase d = DnPumping" and c: "chunk_of src c" and src: "length src \<le> u64_max"
  obtains (duplicate) "chunk_offset c + length (chunk_payload c) \<le> dn_written d" "on_chunk due c d = d"
  | (gap) "dn_written d < chunk_offset c" "on_chunk due c d = dn_fail ''chunk gap'' ''chunk offset gap: pump logic error'' d"
  | (tcp_error) tcp n where "wr_bytes tcp = take (dn_written d + n) src" "dn_written d + n \<le> length src"
      "on_chunk due c d = dn_fail ''TCP write error'' ''TCP write error'' (d\<lparr>dn_tcp := tcp\<rparr>)"
  | (written) tcp where "dn_written d < chunk_offset c + length (chunk_payload c)" "chunk_offset c \<le> dn_written d"
      "wr_bytes tcp = take (chunk_offset c + length (chunk_payload c)) src"
      "on_chunk due c d = accepted due (chunk_offset c + length (chunk_payload c)) tcp d"
proof -
  obtain off pl where cp: "c = Chunk off pl" by (cases c)
  define w where "w = dn_written d"
  have e: "off + length pl \<le> length src" "off + length pl \<le> u64_max" using c src by (simp_all add: chunk_of_def cp)
  have tcp: "wr_bytes (dn_tcp d) = take w src" "dn_last_acked d \<le> dn_written d" using d by (simp_all add: delivered_def w_def)
  consider "off + length pl \<le> w" | "w < off + length pl" "w < off" | "w < off + length pl" "off \<le> w" by linarith
  then show ?thesis
  proof cases
    case 1
    then show ?thesis using e by (intro duplicate) (simp_all add: on_chunk_def w_def cp)
  next
    case 2
    then show ?thesis using e by (intro gap) (simp_all add: on_chunk_def w_def cp)
  next
    case 3
    let ?tw = "drop (dn_written d - off) pl"
    have tw: "?tw = take (off + length pl - w) (drop w src)" using chunk_of_tail [OF c] 3 by (simp add: w_def cp)
    note oc = on_chunk_write [OF cp 3(2) [unfolded w_def] 3(1) [unfolded w_def] e(2) tcp(2)]
    show ?thesis
    proof (rule write_all_cases [of ?tw "''TCP write error''" "dn_tcp d"])
      fix tcp' assume wa: "write_all ?tw ''TCP write error'' (dn_tcp d) = (Inr (), tcp')" "wr_bytes tcp' = wr_bytes (dn_tcp d) @ ?tw"
      have "wr_bytes tcp' = take (off + length pl) src" 
        using wa(2) tcp(1) tw 3 take_add [of w "off + length pl - w" src] by simp
      then show ?thesis using 3 oc [OF wa(1)] by (intro written [of tcp']) (simp_all add: w_def cp)
    next
      fix tcp' n assume wa: "write_all ?tw ''TCP write error'' (dn_tcp d) = (Inl (Transport ''TCP write error''), tcp')"
        "n < length ?tw" "wr_bytes tcp' = wr_bytes (dn_tcp d) @ take n ?tw"
      have n: "n < off + length pl - w" using wa(2) unfolding tw by simp
      then have "wr_bytes tcp' = take (w + n) src" using wa(3) tcp(1) e 3 unfolding tw by (simp add: take_append_slice min_def)
      then show ?thesis using 3 n e oc [OF wa(1)] by (intro tcp_error [of tcp' n]) (simp_all add: w_def cp)
    qed
  qed
qed


text \<open>A client socket that keeps accepting: the chunk is a duplicate or its new bytes are written.\<close>

lemma on_chunk_open:
  assumes d: "delivered src d" "dn_phase d = DnPumping" "wr_room (dn_tcp d) = None" and c: "chunk_of src (Chunk off pl)"
    and src: "length src \<le> u64_max" and off: "off \<le> dn_written d"
  shows "on_chunk due (Chunk off pl) d =
    (if off + length pl \<le> dn_written d then d
     else accepted due (off + length pl) ((dn_tcp d)\<lparr>wr_bytes := take (off + length pl) src\<rparr>) d)"
proof (cases "off + length pl \<le> dn_written d")
  case True
  then show ?thesis using c src by (simp add: on_chunk_def chunk_of_def)
next
  case False
  let ?tw = "drop (dn_written d - off) pl"
  have e: "off + length pl \<le> u64_max" using c src by (simp add: chunk_of_def)
  have "?tw = take (off + length pl - dn_written d) (drop (dn_written d) src)" using chunk_of_tail [OF c] off False by simp
  then have "take (dn_written d) src @ ?tw = take (off + length pl) src"
    using False take_add [of "dn_written d" "off + length pl - dn_written d" src] by simp
  then have "write_all ?tw ''TCP write error'' (dn_tcp d) = (Inr (), (dn_tcp d)\<lparr>wr_bytes := take (off + length pl) src\<rparr>)"
    using d by (simp add: write_all_def delivered_def)
  from on_chunk_write [OF refl off _ e _ this] show ?thesis using False d(1) by (simp add: delivered_def)
qed

lemma delivered_fail:
  assumes d: "delivered src d" "dn_phase d = DnPumping"
    and tcp: "wr_bytes tcp = take (dn_written d + n) src" "dn_written d + n \<le> length src"
  shows "delivered src (dn_fail wr r (d\<lparr>dn_tcp := tcp\<rparr>))"
proof -
  have "prefix (take (dn_written d) src) (wr_bytes tcp)" unfolding tcp(1) by (simp add: take_add)
  moreover have "prefix (wr_bytes tcp) src" unfolding tcp(1) by (rule take_is_prefix)
  ultimately show ?thesis using d by (simp add: delivered_def dn_fail_def)
qed

lemma delivered_accepted:
  assumes d: "delivered src d" "dn_phase d = DnPumping" and e: "dn_written d \<le> e" "e \<le> length src" and tcp: "wr_bytes tcp = take e src"
  shows "delivered src (accepted due e tcp d)"
proof -
  have "\<forall>n. Ack n \<in> set (dn_feedback d) \<longrightarrow> n \<le> e" using d(1) e(1) by (auto simp: delivered_def)
  then show ?thesis
    using d e tcp by (simp add: delivered_def accepted_def Let_def take_is_prefix)
qed

lemma delivered_on_chunk:
  assumes d: "delivered src d" "dn_phase d = DnPumping" and c: "chunk_of src c" and src: "length src \<le> u64_max"
  shows "delivered src (on_chunk due c d)"
proof (rule on_chunk_cases [OF assms, of due])
  assume "on_chunk due c d = dn_fail ''chunk gap'' ''chunk offset gap: pump logic error'' d"
  moreover have "wr_bytes (dn_tcp d) = take (dn_written d + 0) src" "dn_written d + 0 \<le> length src"
    using d by (simp_all add: delivered_def)
  ultimately show ?thesis
    using delivered_fail [OF d, of "dn_tcp d" 0 "''chunk gap''" "''chunk offset gap: pump logic error''"] by simp
next
  fix tcp assume "dn_written d < chunk_offset c + length (chunk_payload c)"
    "wr_bytes tcp = take (chunk_offset c + length (chunk_payload c)) src"
    "on_chunk due c d = accepted due (chunk_offset c + length (chunk_payload c)) tcp d"
  then show ?thesis using c delivered_accepted [OF d] by (simp add: chunk_of_def)
qed (use d in \<open>simp_all add: delivered_fail\<close>)

lemma delivered_read:
  assumes d: "delivered src d" and src: "length src \<le> u64_max" and r: "\<forall>c. r = Inr (Some c) \<longrightarrow> chunk_of src c"
  shows "delivered src (downlink_read due r d)"
proof (cases "dn_phase d = DnPumping")
  case False
  then have "downlink_read due r d = d" by (cases "dn_phase d") (simp_all add: downlink_read_def)
  then show ?thesis using d by simp
next
  case True
  consider c where "r = Inr (Some c)" | "r = Inr None" | e where "r = Inl e" by (cases r) auto
  then show ?thesis
  proof cases
    case 1
    then show ?thesis using delivered_on_chunk [OF d True _ src] r True by (simp add: downlink_read_def)
  qed (use d True in \<open>simp_all add: downlink_read_def delivered_def take_is_prefix\<close>)
qed

lemma delivered_stream: "delivered src d \<Longrightarrow> delivered src (downlink_stream fresh d)"
  by (simp add: downlink_stream_def delivered_def take_is_prefix split: downlink_phase.split)

lemma delivered_accept:
  "delivered src d \<Longrightarrow> dn_phase d = DnAccept \<Longrightarrow> delivered src (downlink_accept ok d)"
  by (simp add: downlink_accept_def dn_fail_def delivered_def take_is_prefix)

definition honest :: "u8 list \<Rightarrow> downlink_event \<Rightarrow> bool" where
  "honest src ev \<longleftrightarrow> (\<forall>due c. ev = Read due (Inr (Some c)) \<longrightarrow> chunk_of src c)"

lemma delivered_step:
  assumes "delivered src d" "length src \<le> u64_max" "honest src ev"
  shows "delivered src (downlink_step ev d)"
proof (cases ev)
  case (Read due r)
  then show ?thesis using assms by (auto simp: honest_def intro!: delivered_read)
qed (use assms in \<open>auto intro: delivered_stream delivered_accept\<close>)

lemma delivered_run:
  "length src \<le> u64_max \<Longrightarrow> delivered src d \<Longrightarrow> \<forall>ev \<in> set evs. honest src ev \<Longrightarrow> delivered src (downlink_run evs d)"
  by (induction evs arbitrary: d) (auto simp: downlink_run_def delivered_step)

lemma delivered_new: "wr_bytes tcp = [] \<Longrightarrow> delivered src (downlink_new u info port tcp)"
  by (simp add: delivered_def downlink_new_def)

section \<open>Properties\<close>

text \<open>C2 (safety): exactly-once, in-order delivery at the receiver. Whatever sequence of chunks of the
  stream arrives (repeated, overlapping, out of order, with gaps, cut by link failures and new
  streams), the client's socket holds a prefix of the stream; while the transfer runs and when it
  ends normally it is exactly the first \<open>bytes_written\<close> bytes, and no acknowledgement exceeds them.\<close>

theorem downlink_exactly_once:
  assumes "length src \<le> u64_max" and "wr_bytes tcp = []" and "\<forall>ev \<in> set evs. honest src ev"
    and "d = downlink_run evs (downlink_new u info port tcp)"
  shows "prefix (wr_bytes (dn_tcp d)) src \<and>
    (dn_phase d \<noteq> DnEnded \<or> dn_fin_sent d \<longrightarrow> wr_bytes (dn_tcp d) = take (dn_written d) src) \<and>
    (\<forall>n. Ack n \<in> set (dn_feedback d) \<longrightarrow> n \<le> dn_written d)"
  using delivered_run [OF assms(1) delivered_new [OF assms(2)] assms(3)] assms(4) by (simp add: delivered_def)

definition demo_events :: "downlink_event list" where
  "demo_events = [Accepted True, Read False (Inr (Some (Chunk 0 [10, 20]))), Read False (Inl (Transport ''reset'')), Fresh True,
     Read False (Inr (Some (Chunk 1 [20, 30]))), Read False (Inr (Some (Chunk 0 [10]))), Read False (Inr None)]"

theorem downlink_exactly_once_witness:
  "\<exists>d. d = downlink_run demo_events (downlink_new 1 \<lparr>size_bytes = None, attrs = Map.empty\<rparr> 4000 \<lparr>wr_bytes = [], wr_room = None\<rparr>) \<and>
     dn_fin_sent d \<and> wr_bytes (dn_tcp d) = take (dn_written d) [10, 20, 30] \<and> dn_written d = 3"
proof -
  let ?d = "downlink_run demo_events (downlink_new 1 \<lparr>size_bytes = None, attrs = Map.empty\<rparr> 4000 \<lparr>wr_bytes = [], wr_room = None\<rparr>)"
  have "dn_fin_sent ?d" "dn_written ?d = 3"
    by (simp_all add: demo_events_def downlink_run_def downlink_new_def downlink_accept_def downlink_read_def downlink_stream_def
        on_chunk_def write_all_def ACK_INTERVAL_def add_u64_def sub_u64_def)
  moreover have "\<forall>ev \<in> set demo_events. honest [10, 20, 30] ev"
    by (simp add: demo_events_def honest_def chunk_of_def)
  ultimately show ?thesis
    using downlink_exactly_once [of "[10, 20, 30]" "\<lparr>wr_bytes = [], wr_room = None\<rparr>" demo_events ?d 1
        "\<lparr>size_bytes = None, attrs = Map.empty\<rparr>" 4000] by (simp add: u64_max_def)
qed

text \<open>C29 (functional): the receiver's handling of a chunk, branch by branch. A chunk that ends at or below
  \<open>bytes_written\<close> changes nothing; one that starts above it ends the transfer with an error to both
  ends and writes nothing; one that straddles it delivers only the new bytes, and an acknowledgement
  is sent as soon as 64 KiB have been written since the last one.\<close>

theorem downlink_chunk_outcome:
  assumes d: "delivered src d" "dn_phase d = DnPumping" "wr_room (dn_tcp d) = None"
    and c: "chunk_of src (Chunk off pl)" "length src \<le> u64_max" and d': "d' = downlink_read due (Inr (Some (Chunk off pl))) d"
  shows "(off + length pl \<le> dn_written d \<longrightarrow> d' = d) \<and>
    (dn_written d < off \<longrightarrow> pl \<noteq> [] \<longrightarrow> dn_phase d' = DnEnded \<and> dn_tcp d' = dn_tcp d \<and> last (dn_feedback d') = Error 99 ''chunk gap'' \<and>
       last (dn_callbacks d') = StreamFailed (dn_uuid d) UNKNOWN ''chunk offset gap: pump logic error'') \<and>
    (off \<le> dn_written d \<and> dn_written d < off + length pl \<longrightarrow>
       dn_phase d' = DnPumping \<and> dn_written d' = off + length pl \<and> wr_bytes (dn_tcp d') = take (off + length pl) src \<and>
       dn_written d' - dn_last_acked d' < ACK_INTERVAL \<and>
       (ACK_INTERVAL \<le> off + length pl - dn_last_acked d \<longrightarrow> last (dn_feedback d') = Ack (off + length pl)))"
proof -
  have oc: "d' = on_chunk due (Chunk off pl) d" using d(2) d' by (simp add: downlink_read_def)
  have e: "off + length pl \<le> length src" "off + length pl \<le> u64_max" using c by (simp_all add: chunk_of_def)
  show ?thesis
  proof (cases "off \<le> dn_written d")
    case True
    then show ?thesis using on_chunk_open [OF d c True, of due] oc d(2) by (auto simp: accepted_def Let_def ACK_INTERVAL_def)
  next
    case False
    then show ?thesis using oc e by (simp add: on_chunk_def dn_fail_def)
  qed
qed

theorem downlink_chunk_outcome_witness:
  "\<exists>d'. d' = downlink_read False (Inr (Some (Chunk 0 [10, 20])))
      (downlink_accept True (downlink_new 1 \<lparr>size_bytes = None, attrs = Map.empty\<rparr> 4000 \<lparr>wr_bytes = [], wr_room = None\<rparr>)) \<and>
     dn_written d' = 2 \<and> wr_bytes (dn_tcp d') = [10, 20]"
proof -
  let ?d = "downlink_accept True (downlink_new 1 \<lparr>size_bytes = None, attrs = Map.empty\<rparr> 4000 \<lparr>wr_bytes = [], wr_room = None\<rparr>)"
  have "delivered [10, 20, 30] ?d" by (rule delivered_accept [OF delivered_new]) (simp_all add: downlink_new_def)
  moreover have "dn_phase ?d = DnPumping" "wr_room (dn_tcp ?d) = None" "dn_written ?d = 0"
    by (simp_all add: downlink_accept_def downlink_new_def)
  ultimately show ?thesis
    using downlink_chunk_outcome [of "[10, 20, 30]" ?d 0 "[10, 20]" _ False, OF _ _ _ _ _ refl] by (simp add: chunk_of_def u64_max_def)
qed

end
