(* ===== verification/Relay.thy ===== *)
theory Relay
  imports Uplink Downlink
begin

text \<open>
  A whole transfer over failing links: the spool and the pump's cursor at the sender, the QUIC streams
  between the two agents, and the downlink task at the receiver, as a step relation over the
  definitions of those components. It composes what \<open>StreamPump\<close>, \<open>AckTask\<close>, \<open>restore_active\<close>,
  \<open>deliver_reconnect_stream\<close> and \<open>run_downlink\<close> do to one stream.

  The streams are a list, oldest first: the receiver reads the first, the sender writes to and reads
  acknowledgements from the last. A stream carries whole chunks; that a broken QUIC stream delivers a
  prefix of the chunks sent and then an error is a property of the framing (theory Framing). Each
  step is one action of one task, in any interleaving.
\<close>

section \<open>State\<close>

record link =
  ln_chunks :: "chunk list"
  ln_acks :: "nat list"
  ln_fin :: bool
  ln_broken :: bool

record relay =
  ry_spool :: spool
  ry_q :: nat
  ry_up :: bool
  ry_exited :: bool
  ry_links :: "link list"
  ry_down :: downlink

definition new_link :: link where
  "new_link = \<lparr>ln_chunks = [], ln_acks = [], ln_fin = False, ln_broken = False\<rparr>"

definition relay_init :: "downlink \<Rightarrow> relay" where
  "relay_init d = \<lparr>ry_spool = spool_new, ry_q = 0, ry_up = True, ry_exited = False, ry_links = [new_link], ry_down = d\<rparr>"

text \<open>The acknowledgements a step of the receiver added.\<close>

definition new_acks :: "downlink \<Rightarrow> downlink \<Rightarrow> nat list" where
  "new_acks d d' = List.map_filter (\<lambda>m. case m of Ack n \<Rightarrow> Some n | _ \<Rightarrow> None) (drop (length (dn_feedback d)) (dn_feedback d'))"

definition send_on :: "nat \<Rightarrow> u8 list \<Rightarrow> link \<Rightarrow> link" where
  "send_on q pl l = (if ln_broken l then l else l\<lparr>ln_chunks := ln_chunks l @ [Chunk q pl]\<rparr>)"

section \<open>Steps\<close>

inductive relay_step :: "u8 list \<Rightarrow> relay \<Rightarrow> relay \<Rightarrow> bool" for src :: "u8 list" where
  client_data: "\<not> spool_eof (ry_spool r) \<Longrightarrow> data \<noteq> [] \<Longrightarrow> length data \<le> available (ry_spool r) \<Longrightarrow>
     prefix data (drop (head_offset (ry_spool r)) src) \<Longrightarrow>
     relay_step src r (r\<lparr>ry_spool := push data (ry_spool r)\<rparr>)"
| client_eof: "head_offset (ry_spool r) = length src \<Longrightarrow>
     relay_step src r (r\<lparr>ry_spool := (ry_spool r)\<lparr>sp_head := u64_max\<rparr>\<rparr>)"
| send: "ry_up r \<Longrightarrow> ry_links r = ls @ [l] \<Longrightarrow> ry_q r < head_offset (ry_spool r) \<Longrightarrow>
     slice_from split (ry_q r) (ry_spool r) = Some sl \<Longrightarrow> pl = next_chunk budget CHUNK_SIZE sl \<Longrightarrow> pl \<noteq> [] \<Longrightarrow>
     relay_step src r (r\<lparr>ry_q := add_u64 (ry_q r) (length pl), ry_links := ls @ [send_on (ry_q r) pl l]\<rparr>)"
| send_fin: "ry_up r \<Longrightarrow> ry_links r = ls @ [l] \<Longrightarrow> spool_eof (ry_spool r) \<Longrightarrow> head_offset (ry_spool r) \<le> ry_q r \<Longrightarrow>
     relay_step src r (r\<lparr>ry_exited := True, ry_links := ls @ [if ln_broken l then l else l\<lparr>ln_fin := True\<rparr>]\<rparr>)"
| ack_read: "ry_up r \<Longrightarrow> ry_links r = ls @ [l] \<Longrightarrow> ln_acks l = n # ns \<Longrightarrow>
     relay_step src r (r\<lparr>ry_spool := ack n (ry_spool r), ry_links := ls @ [l\<lparr>ln_acks := ns\<rparr>]\<rparr>)"
| break: "ry_links r = ls1 @ l # ls2 \<Longrightarrow>
     relay_step src r (r\<lparr>ry_links := ls1 @ l\<lparr>ln_chunks := take k (ln_chunks l), ln_fin := False, ln_broken := True\<rparr> # ls2\<rparr>)"
| link_lost: "ry_up r \<Longrightarrow> ry_links r = ls @ [l] \<Longrightarrow> ln_broken l \<Longrightarrow>
     relay_step src r (r\<lparr>ry_up := False, ry_q := sp_bytes_acked (ry_spool r)\<rparr>)"
| reconnect: "\<not> ry_up r \<Longrightarrow> \<not> ry_exited r \<Longrightarrow>
     fst (deliver_reconnect_stream \<lparr>dh_queue = tl (ry_links r), dh_open = (dn_phase (ry_down r) \<noteq> DnEnded),
        dh_bytes_written = dn_written_atomic (ry_down r)\<rparr> (sp_bytes_acked (ry_spool r)) new_link) = Delivered \<Longrightarrow>
     relay_step src r (r\<lparr>ry_up := True, ry_q := sp_bytes_acked (ry_spool r), ry_links := ry_links r @ [new_link]\<rparr>)"
| recv_chunk: "ry_links r = l # ls \<Longrightarrow> ln_chunks l = c # cs \<Longrightarrow> dn_phase (ry_down r) = DnPumping \<Longrightarrow>
     d' = downlink_read due (Inr (Some c)) (ry_down r) \<Longrightarrow>
     relay_step src r (r\<lparr>ry_down := d', ry_links :=
       l\<lparr>ln_chunks := cs, ln_acks := (if ln_broken l then ln_acks l else ln_acks l @ new_acks (ry_down r) d')\<rparr> # ls\<rparr>)"
| recv_fin: "ry_links r = l # ls \<Longrightarrow> ln_chunks l = [] \<Longrightarrow> ln_fin l \<Longrightarrow> dn_phase (ry_down r) = DnPumping \<Longrightarrow>
     relay_step src r (r\<lparr>ry_down := downlink_read due (Inr None) (ry_down r)\<rparr>)"
| recv_error: "ry_links r = l # ls \<Longrightarrow> ln_chunks l = [] \<Longrightarrow> ln_broken l \<Longrightarrow> dn_phase (ry_down r) = DnPumping \<Longrightarrow>
     relay_step src r (r\<lparr>ry_down := downlink_read due (Inl e) (ry_down r)\<rparr>)"
| next_stream: "ry_links r = l # l2 # ls \<Longrightarrow> dn_phase (ry_down r) = DnWaiting \<Longrightarrow>
     relay_step src r (r\<lparr>ry_down := downlink_stream True (ry_down r), ry_links := l2 # ls\<rparr>)"

section \<open>Invariant\<close>

text \<open>One stream: its chunks continue the client's bytes from a point p the receiver has already
  reached, and its acknowledgements are not beyond p.\<close>

definition link_ok :: "u8 list \<Rightarrow> nat \<Rightarrow> nat \<Rightarrow> link \<Rightarrow> nat \<Rightarrow> bool" where
  "link_ok src w p l e \<longleftrightarrow> p \<le> w \<and> covers src p (ln_chunks l) e \<and> (\<forall>n \<in> set (ln_acks l). n \<le> p) \<and>
     (ln_fin l \<longrightarrow> e = length src)"

definition sender_ok :: "u8 list \<Rightarrow> relay \<Rightarrow> bool" where
  "sender_ok src r \<longleftrightarrow> sp.stores src (ry_spool r) \<and> (spool_eof (ry_spool r) \<longrightarrow> head_offset (ry_spool r) = length src) \<and>
     (ry_up r \<longrightarrow> sp_bytes_acked (ry_spool r) \<le> ry_q r \<and> ry_q r \<le> head_offset (ry_spool r))"

definition receiver_ok :: "u8 list \<Rightarrow> relay \<Rightarrow> bool" where
  "receiver_ok src r \<longleftrightarrow> delivered src (ry_down r) \<and> wr_room (dn_tcp (ry_down r)) = None \<and>
     (dn_phase (ry_down r) = DnEnded \<longrightarrow> dn_fin_sent (ry_down r) \<and> dn_written (ry_down r) = length src)"

definition links_ok :: "u8 list \<Rightarrow> nat \<Rightarrow> bool \<Rightarrow> nat \<Rightarrow> link list \<Rightarrow> bool" where
  "links_ok src w up q ls \<longleftrightarrow> ls \<noteq> [] \<and> (\<forall>l \<in> set ls. \<exists>p e. link_ok src w p l e) \<and>
     (up \<longrightarrow> (\<exists>p e. link_ok src w p (last ls) e \<and> e \<le> q \<and> (\<not> ln_broken (last ls) \<longrightarrow> e = q)))"

definition relay_inv :: "u8 list \<Rightarrow> relay \<Rightarrow> bool" where
  "relay_inv src r \<longleftrightarrow> sender_ok src r \<and> receiver_ok src r \<and>
     links_ok src (dn_written (ry_down r)) (ry_up r) (ry_q r) (ry_links r) \<and>
     sp_bytes_acked (ry_spool r) \<le> dn_written (ry_down r)"

lemmas relay_inv_defs = relay_inv_def sender_ok_def receiver_ok_def

lemma covers_take:
  "covers src p cs e \<Longrightarrow> p \<le> length src \<Longrightarrow> \<exists>e'. covers src p (take k cs) e' \<and> e' \<le> e"
proof -
  assume c: "covers src p cs e" and p: "p \<le> length src"
  then obtain e' where e': "covers src p (take k cs) e'" "covers src e' (drop k cs) e"
    using covers_append [of src p "take k cs" "drop k cs" e] by auto
  then have "e' \<le> length src" using covers_bounds p by blast
  then show ?thesis using e' covers_bounds by blast
qed

lemma link_ok_mono: "link_ok src w p l e \<Longrightarrow> w \<le> w' \<Longrightarrow> link_ok src w' p l e"
  by (auto simp: link_ok_def)

lemma link_ok_break:
  assumes "link_ok src w p l e" "w \<le> length src"
  shows "\<exists>e' \<le> e. link_ok src w p (l\<lparr>ln_chunks := take k (ln_chunks l), ln_fin := False, ln_broken := True\<rparr>) e'"
  using assms covers_take [of src p "ln_chunks l" e k] by (auto simp: link_ok_def)

text \<open>The chunk the pump takes from the spool.\<close>

lemma send_chunk:
  assumes s: "sp.stores src s" "sp_bytes_acked s \<le> q" "q < head_offset s"
    and pl: "slice_from split q s = Some sl" "pl = next_chunk budget CHUNK_SIZE sl"
  shows "prefix pl (drop q src)" "length pl \<le> CHUNK_SIZE" "q + length pl \<le> head_offset s"
proof -
  have sl: "prefix sl (drop q (take (head_offset s) src))" using sp.get_stores [OF s(1,2), of split] s(3) pl(1) by auto
  have "prefix pl sl" by (simp add: pl(2) next_chunk_def take_is_prefix)
  then have c: "prefix pl (drop q (take (head_offset s) src))" using sl by (rule prefix_order.trans)
  have "prefix (drop q (take (head_offset s) src)) (drop q src)" by (metis drop_take take_is_prefix)
  then show "prefix pl (drop q src)" using c by (rule prefix_order.trans [rotated])
  show "length pl \<le> CHUNK_SIZE" by (simp add: pl(2) next_chunk_def)
  show "q + length pl \<le> head_offset s" using prefix_length_le [OF c] s(3) by auto
qed

text \<open>The receiver reads the next chunk of a stream.\<close>

lemma covers_chunk_of:
  assumes "covers src p (c # cs) e" "p \<le> length src"
  obtains pl where "c = Chunk p pl" "chunk_of src c" "covers src (p + length pl) cs e"
proof -
  obtain off pl where c: "c = Chunk off pl" by (cases c)
  with assms have "off = p" "prefix pl (drop p src)" "covers src (p + length pl) cs e" by simp_all
  moreover from this have "chunk_of src c" using prefix_drop_le [of pl p src] assms(2) c
    by (auto simp: chunk_of_def prefix_def)
  ultimately show ?thesis using that c by blast
qed

lemma read_next_chunk:
  assumes r: "receiver_ok src r" "dn_phase (ry_down r) = DnPumping" and src: "length src \<le> u64_max"
    and c: "chunk_of src (Chunk p pl)" "p \<le> dn_written (ry_down r)"
    and d': "d' = downlink_read due (Inr (Some (Chunk p pl))) (ry_down r)"
  shows "delivered src d'" "wr_room (dn_tcp d') = None" "dn_phase d' = DnPumping"
    "dn_written d' = max (dn_written (ry_down r)) (p + length pl)" "set (new_acks (ry_down r) d') \<subseteq> {p + length pl}"
proof -
  have d: "delivered src (ry_down r)" "wr_room (dn_tcp (ry_down r)) = None" using r(1) by (simp_all add: receiver_ok_def)
  show "delivered src d'" unfolding d' by (rule delivered_read [OF d(1) src]) (use c(1) in simp)
  have "d' = (if p + length pl \<le> dn_written (ry_down r) then ry_down r
     else accepted due (p + length pl) ((dn_tcp (ry_down r))\<lparr>wr_bytes := take (p + length pl) src\<rparr>) (ry_down r))"
    using on_chunk_open [OF d(1) r(2) d(2) c(1) src c(2)] r(2) by (simp add: d' downlink_read_def)
  then show "wr_room (dn_tcp d') = None" "dn_phase d' = DnPumping"
    "dn_written d' = max (dn_written (ry_down r)) (p + length pl)" "set (new_acks (ry_down r) d') \<subseteq> {p + length pl}"
    using d(2) r(2) by (auto simp: accepted_def Let_def new_acks_def List.map_filter_def max_def)
qed

text \<open>Changes to the list of streams.\<close>

lemma links_ok_snoc:
  assumes "links_ok src w up q (ls @ [l])" "link_ok src w p l' e" "e \<le> q'" "\<not> ln_broken l' \<longrightarrow> e = q'"
  shows "links_ok src w up' q' (ls @ [l'])"
  using assms unfolding links_ok_def by auto

lemma links_ok_new:
  assumes "links_ok src w up q ls" "a \<le> w"
  shows "links_ok src w True a (ls @ [new_link])"
proof -
  have "link_ok src w a new_link a" using assms(2) by (simp add: link_ok_def new_link_def)
  then show ?thesis using assms(1) unfolding links_ok_def by auto
qed

lemma links_ok_head:
  assumes "links_ok src w up q (l # ls)" "w \<le> w'" "ln_broken l' = ln_broken l"
    and step: "\<And>p e. link_ok src w p l e \<Longrightarrow> \<exists>p'. link_ok src w' p' l' e"
  shows "links_ok src w' up q (l' # ls)"
proof -
  have "\<exists>p e. link_ok src w p l e" using assms(1) by (simp add: links_ok_def)
  then have here: "\<exists>p e. link_ok src w' p l' e" using step by blast
  have "\<exists>p e. link_ok src w' p (last (l' # ls)) e \<and> e \<le> q \<and> (\<not> ln_broken (last (l' # ls)) \<longrightarrow> e = q)" if u: up
  proof -
    obtain p e where "link_ok src w p (last (l # ls)) e" "e \<le> q" "\<not> ln_broken (last (l # ls)) \<longrightarrow> e = q"
      using assms(1) u unfolding links_ok_def by blast
    then have "\<exists>p'. link_ok src w' p' (last (l' # ls)) e" 
      using step [of p e] link_ok_mono [OF _ assms(2), of src p "last ls" e] by (cases "ls = []") auto
    moreover have "ln_broken (last (l' # ls)) = ln_broken (last (l # ls))" using assms(3) by simp
    ultimately show ?thesis using \<open>e \<le> q\<close> \<open>\<not> ln_broken (last (l # ls)) \<longrightarrow> e = q\<close> by blast
  qed
  moreover have "\<exists>p e. link_ok src w' p x e" if "x \<in> set ls" for x
    using assms(1,2) that link_ok_mono unfolding links_ok_def by (metis list.set_intros(2))
  ultimately show ?thesis using here unfolding links_ok_def by auto
qed

lemma links_ok_tail: "links_ok src w up q (l # l2 # ls) \<Longrightarrow> links_ok src w up q (l2 # ls)"
  by (simp add: links_ok_def)

lemma links_ok_lost: "links_ok src w up q ls \<Longrightarrow> links_ok src w False q' ls"
  by (simp add: links_ok_def)

lemma links_ok_break:
  assumes ok: "links_ok src w up q (ls1 @ l # ls2)" and w: "w \<le> length src"
  shows "links_ok src w up q (ls1 @ l\<lparr>ln_chunks := take k (ln_chunks l), ln_fin := False, ln_broken := True\<rparr> # ls2)"
proof (cases ls2)
  case Nil
  from ok obtain p e where "link_ok src w p l e" "up \<longrightarrow> e \<le> q" using Nil unfolding links_ok_def by auto
  then obtain e' where "link_ok src w p (l\<lparr>ln_chunks := take k (ln_chunks l), ln_fin := False, ln_broken := True\<rparr>) e'" "up \<longrightarrow> e' \<le> q"
    using link_ok_break [OF _ w] by (metis order_trans)
  then show ?thesis using ok Nil unfolding links_ok_def by auto
next
  case (Cons l2 ls)
  from ok obtain p e where "link_ok src w p l e" unfolding links_ok_def by auto
  then show ?thesis using ok Cons link_ok_break [OF _ w] unfolding links_ok_def by simp metis
qed

section \<open>Every step keeps it\<close>

lemma inv_client_data:
  assumes inv: "relay_inv src r" and src: "length src < u64_max" and "\<not> spool_eof (ry_spool r)" "length data \<le> available (ry_spool r)"
    "prefix data (drop (head_offset (ry_spool r)) src)"
  shows "relay_inv src (r\<lparr>ry_spool := push data (ry_spool r)\<rparr>)"
proof -
  let ?s = "ry_spool r"
  have s: "sp.stores src ?s" "wf_spool ?s" "head_offset ?s \<le> length src" using inv by (simp_all add: relay_inv_defs sp.stores_def)
  have room: "head_offset ?s + length data < u64_max" using prefix_drop_le [OF assms(5) s(3)] src by simp
  note p = sp.put_stores [OF s(1) assms(3,4) room assms(5)] sp.put_top [OF s(2) assms(3,4) room] sp.put_ok [OF s(2) assms(3,4) room]
  then show ?thesis using inv by (auto simp: relay_inv_defs)
qed

lemma inv_client_eof:
  assumes "relay_inv src r" "head_offset (ry_spool r) = length src"
  shows "relay_inv src (r\<lparr>ry_spool := (ry_spool r)\<lparr>sp_head := u64_max\<rparr>\<rparr>)"
  using assms spool_mark_eof [of src "ry_spool r"] by (auto simp: relay_inv_defs)

lemma inv_send:
  assumes inv: "relay_inv src r" and src: "length src < u64_max" and up: "ry_up r" "ry_links r = ls @ [l]"
    and q: "ry_q r < head_offset (ry_spool r)" "slice_from split (ry_q r) (ry_spool r) = Some sl"
    and pl: "pl = next_chunk budget CHUNK_SIZE sl" "pl \<noteq> []"
  shows "relay_inv src (r\<lparr>ry_q := add_u64 (ry_q r) (length pl), ry_links := ls @ [send_on (ry_q r) pl l]\<rparr>)"
proof -
  let ?w = "dn_written (ry_down r)"
  have s: "sp.stores src (ry_spool r)" "sp_bytes_acked (ry_spool r) \<le> ry_q r" "head_offset (ry_spool r) \<le> length src"
    using inv up by (simp_all add: relay_inv_defs sp.stores_def)
  note c = send_chunk [OF s(1,2) q pl(1)]
  have add: "add_u64 (ry_q r) (length pl) = ry_q r + length pl" using c(3) s(3) src by simp
  have lo: "links_ok src ?w True (ry_q r) (ls @ [l])" using inv up by (simp add: relay_inv_def)
  then obtain p e where l: "link_ok src ?w p l e" "e \<le> ry_q r" "\<not> ln_broken l \<longrightarrow> e = ry_q r" by (auto simp: links_ok_def)
  have nf: "\<not> ln_fin l" using l q(1) s(3) by (auto simp: link_ok_def)
  have "\<exists>e'. link_ok src ?w p (send_on (ry_q r) pl l) e' \<and> e' \<le> ry_q r + length pl \<and> (\<not> ln_broken l \<longrightarrow> e' = ry_q r + length pl)"
    using l c pl(2) nf by (cases "ln_broken l") (auto simp: send_on_def link_ok_def covers_append)
  then have "links_ok src ?w True (ry_q r + length pl) (ls @ [send_on (ry_q r) pl l])"
    using links_ok_snoc [OF lo] by (auto simp: send_on_def split: if_splits)
  then show ?thesis using inv up c(3) add by (auto simp: relay_inv_defs)
qed

lemma inv_send_fin:
  assumes inv: "relay_inv src r" and up: "ry_up r" "ry_links r = ls @ [l]"
    and eof: "spool_eof (ry_spool r)" "head_offset (ry_spool r) \<le> ry_q r"
  shows "relay_inv src (r\<lparr>ry_exited := True, ry_links := ls @ [if ln_broken l then l else l\<lparr>ln_fin := True\<rparr>]\<rparr>)"
proof -
  let ?w = "dn_written (ry_down r)"
  have q: "ry_q r = length src" using inv up eof by (simp add: relay_inv_defs)
  have lo: "links_ok src ?w True (ry_q r) (ls @ [l])" using inv up by (simp add: relay_inv_def)
  then obtain p e where "link_ok src ?w p l e" "e \<le> ry_q r" "\<not> ln_broken l \<longrightarrow> e = ry_q r" by (auto simp: links_ok_def)
  then have "links_ok src ?w True (ry_q r) (ls @ [if ln_broken l then l else l\<lparr>ln_fin := True\<rparr>])"
    by (intro links_ok_snoc [OF lo, of p _ e]) (auto simp: link_ok_def q)
  then show ?thesis using inv up by (auto simp: relay_inv_defs)
qed

lemma inv_ack_read:
  assumes inv: "relay_inv src r" and src: "length src < u64_max" and up: "ry_up r" "ry_links r = ls @ [l]" and n: "ln_acks l = n # ns"
  shows "relay_inv src (r\<lparr>ry_spool := ack n (ry_spool r), ry_links := ls @ [l\<lparr>ln_acks := ns\<rparr>]\<rparr>)"
proof -
  let ?w = "dn_written (ry_down r)" and ?s = "ry_spool r"
  have s: "sp.stores src ?s" "wf_spool ?s" using inv by (simp_all add: relay_inv_defs sp.stores_def)
  have w: "?w \<le> length src" using inv by (simp add: relay_inv_defs delivered_def)
  have lo: "links_ok src ?w True (ry_q r) (ls @ [l])" using inv up by (simp add: relay_inv_def)
  then obtain p e where l: "link_ok src ?w p l e" "e \<le> ry_q r" "\<not> ln_broken l \<longrightarrow> e = ry_q r" by (auto simp: links_ok_def)
  have pe: "n \<le> p" "p \<le> ?w" "covers src p (ln_chunks l) e" using l(1) n by (auto simp: link_ok_def)
  then have np: "n \<le> ?w" "n \<le> ry_q r" using covers_bounds [OF pe(3)] l(2) w by auto
  have "links_ok src ?w True (ry_q r) (ls @ [l\<lparr>ln_acks := ns\<rparr>])"
    by (rule links_ok_snoc [OF lo, of p _ e]) (use l n in \<open>auto simp: link_ok_def\<close>)
  moreover have "n \<le> u64_max" using np(1) w src by simp
  note sp.free_stores [OF s(1) this] sp.free_top [OF s(2) this] sp.free_ok [OF s(2) this]
  ultimately show ?thesis using inv up np by (auto simp: relay_inv_defs)
qed

lemma inv_recv_chunk:
  assumes inv: "relay_inv src r" and src: "length src < u64_max" and l: "ry_links r = l # ls" "ln_chunks l = c # cs"
    and ph: "dn_phase (ry_down r) = DnPumping" and d': "d' = downlink_read due (Inr (Some c)) (ry_down r)"
  shows "relay_inv src (r\<lparr>ry_down := d', ry_links :=
       l\<lparr>ln_chunks := cs, ln_acks := (if ln_broken l then ln_acks l else ln_acks l @ new_acks (ry_down r) d')\<rparr> # ls\<rparr>)"
proof -
  let ?w = "dn_written (ry_down r)"
  have ro: "receiver_ok src r" using inv by (simp add: relay_inv_def)
  then have w: "?w \<le> length src" by (simp add: receiver_ok_def delivered_def)
  have lo: "links_ok src ?w (ry_up r) (ry_q r) (l # ls)" using inv l(1) by (simp add: relay_inv_def)
  have step: "delivered src d' \<and> wr_room (dn_tcp d') = None \<and> dn_phase d' = DnPumping \<and> ?w \<le> dn_written d' \<and>
      (\<exists>p'. link_ok src (dn_written d') p' (l\<lparr>ln_chunks := cs, ln_acks := (if ln_broken l then ln_acks l else ln_acks l @ new_acks (ry_down r) d')\<rparr>) e)"
    if "link_ok src ?w p l e" for p e
  proof -
    have p: "p \<le> ?w" "covers src p (c # cs) e" "p \<le> length src" using that l(2) w by (auto simp: link_ok_def)
    obtain pl where c: "c = Chunk p pl" "chunk_of src c" "covers src (p + length pl) cs e" by (rule covers_chunk_of [OF p(2,3)])
    note rc = read_next_chunk [OF ro ph _ c(2) [unfolded c(1)] p(1) d' [unfolded c(1)]]
    have "link_ok src (dn_written d') (p + length pl)
        (l\<lparr>ln_chunks := cs, ln_acks := (if ln_broken l then ln_acks l else ln_acks l @ new_acks (ry_down r) d')\<rparr>) e"
      using that c(3) rc(4,5) src by (fastforce simp: link_ok_def)
    then show ?thesis using rc src by auto
  qed
  obtain p e where "link_ok src ?w p l e" using lo by (auto simp: links_ok_def)
  note first = step [OF this]
  have "links_ok src (dn_written d') (ry_up r) (ry_q r)
      (l\<lparr>ln_chunks := cs, ln_acks := (if ln_broken l then ln_acks l else ln_acks l @ new_acks (ry_down r) d')\<rparr> # ls)"
    by (rule links_ok_head [OF lo]) (use first step in auto)
  then show ?thesis using inv first by (auto simp: relay_inv_defs)
qed

lemma relay_inv_step:
  assumes "relay_step src r r'" "relay_inv src r" "length src < u64_max"
  shows "relay_inv src r'"
  using assms
proof (induction rule: relay_step.induct)
  case (break r ls1 l ls2 k)
  then have "dn_written (ry_down r) \<le> length src" by (simp add: relay_inv_defs delivered_def)
  then show ?case using break links_ok_break [of src _ _ _ ls1 l ls2 k] by (auto simp: relay_inv_defs)
next
  case (link_lost r ls l)
  then show ?case using links_ok_lost by (auto simp: relay_inv_defs)
next
  case (reconnect r)
  have "sp_bytes_acked (ry_spool r) \<le> head_offset (ry_spool r)"
    using reconnect sp.content_length [of "ry_spool r"] by (auto simp: relay_inv_defs sp.stores_def)
  then show ?case using reconnect links_ok_new by (auto simp: relay_inv_defs)
next
  case (recv_fin r l ls due)
  then obtain p e where "link_ok src (dn_written (ry_down r)) p l e" by (auto simp: relay_inv_def links_ok_def)
  then have "dn_written (ry_down r) = length src"
    using recv_fin by (auto simp: link_ok_def relay_inv_defs delivered_def)
  moreover have "delivered src (downlink_read due (Inr None) (ry_down r))"
    using recv_fin by (intro delivered_read) (simp_all add: relay_inv_defs)
  ultimately show ?case using recv_fin by (auto simp: relay_inv_defs downlink_read_def)
next
  case (recv_error r l ls due e)
  moreover from this have "delivered src (downlink_read due (Inl e) (ry_down r))"
    by (intro delivered_read) (simp_all add: relay_inv_defs)
  ultimately show ?case by (auto simp: relay_inv_defs downlink_read_def)
next
  case (next_stream r l l2 ls)
  moreover from this have "delivered src (downlink_stream True (ry_down r))" by (intro delivered_stream) (simp add: relay_inv_defs)
  ultimately show ?case by (auto simp: relay_inv_defs downlink_stream_def dest: links_ok_tail)
next
  case (recv_chunk r l ls c cs d' due)
  then show ?case by (intro inv_recv_chunk)
qed (simp_all add: inv_client_data inv_client_eof inv_send inv_send_fin inv_ack_read)


section \<open>Properties\<close>

text \<open>The receiving task once its client has connected, to an open socket.\<close>

definition ready_downlink :: "downlink \<Rightarrow> bool" where
  "ready_downlink d \<longleftrightarrow> dn_phase d = DnPumping \<and> dn_written d = 0 \<and> dn_written_atomic d = 0 \<and> dn_last_acked d = 0 \<and>
     dn_tcp d = \<lparr>wr_bytes = [], wr_room = None\<rparr> \<and> dn_feedback d = [] \<and> \<not> dn_fin_sent d"

lemma relay_inv_init: "ready_downlink d \<Longrightarrow> relay_inv src (relay_init d)"
  by (simp add: ready_downlink_def relay_inv_defs relay_init_def links_ok_def link_ok_def new_link_def delivered_def sp.stores_def
      wf_spool_def spool_new_def head_offset_def u64_max_def spool_eof_def)

lemma relay_inv_reachable:
  assumes "(relay_step src)\<^sup>*\<^sup>* (relay_init d) r" "ready_downlink d" "length src < u64_max"
  shows "relay_inv src r"
  using assms(1)
proof (induction rule: rtranclp_induct)
  case base
  then show ?case using assms(2) by (rule relay_inv_init)
next
  case (step r r')
  then show ?case using relay_inv_step assms(3) by blast
qed

text \<open>C1 (safety): end-to-end, exactly once and in order. In every state of a transfer, after any interleaving of
  client reads, sends, deliveries, acknowledgements, broken streams and reconnects, the receiver's client
  has exactly the first W bytes of what the sender's client wrote, the sender has freed no byte beyond W,
  and when the receiver reports the transfer as done its client has the whole stream.\<close>

theorem relay_exactly_once:
  assumes "(relay_step src)\<^sup>*\<^sup>* (relay_init d) r" and "ready_downlink d" and "length src < u64_max"
  shows "wr_bytes (dn_tcp (ry_down r)) = take (dn_written (ry_down r)) src \<and>
    sp_bytes_acked (ry_spool r) \<le> dn_written (ry_down r) \<and>
    (dn_phase (ry_down r) = DnEnded \<longrightarrow> dn_fin_sent (ry_down r) \<and> wr_bytes (dn_tcp (ry_down r)) = src)"
  using relay_inv_reachable [OF assms] by (auto simp: relay_inv_defs delivered_def)

definition demo_down :: downlink where
  "demo_down = \<lparr>dn_uuid = 7, dn_size_bytes = None, dn_written = 0, dn_written_atomic = 0, dn_last_acked = 0,
     dn_tcp = \<lparr>wr_bytes = [], wr_room = None\<rparr>, dn_feedback = [], dn_fin_sent = False, dn_callbacks = [], dn_phase = DnPumping\<rparr>"

lemma demo_down_ready: "ready_downlink demo_down"
  by (simp add: ready_downlink_def demo_down_def)

text \<open>One byte of the stream sent, the stream broken before it arrives, and a new one opened.\<close>

lemma demo_relay:
  "\<exists>r. (relay_step [10, 20])\<^sup>*\<^sup>* (relay_init demo_down) r \<and> ry_up r \<and> length (ry_links r) = 2"
proof -
  let ?r0 = "relay_init demo_down"
  let ?r1 = "?r0\<lparr>ry_links := [] @ new_link\<lparr>ln_chunks := take 0 (ln_chunks new_link), ln_fin := False, ln_broken := True\<rparr> # []\<rparr>"
  let ?r2 = "?r1\<lparr>ry_up := False, ry_q := sp_bytes_acked (ry_spool ?r1)\<rparr>"
  let ?r3 = "?r2\<lparr>ry_up := True, ry_q := sp_bytes_acked (ry_spool ?r2), ry_links := ry_links ?r2 @ [new_link]\<rparr>"
  have "relay_step [10, 20] ?r0 ?r1" by (rule relay_step.break) (simp add: relay_init_def)
  moreover have "relay_step [10, 20] ?r1 ?r2"
    by (rule relay_step.link_lost [where ls = "[]" and l = "new_link\<lparr>ln_chunks := [], ln_broken := True\<rparr>"])
       (simp_all add: relay_init_def new_link_def)
  moreover have "relay_step [10, 20] ?r2 ?r3"
    by (rule relay_step.reconnect) (simp_all add: relay_init_def deliver_reconnect_stream_def demo_down_def spool_new_def)
  ultimately have "(relay_step [10, 20])\<^sup>*\<^sup>* ?r0 ?r3" by (meson converse_rtranclp_into_rtranclp rtranclp.rtrancl_refl)
  then show ?thesis by (intro exI [of _ ?r3]) simp
qed

theorem relay_exactly_once_witness:
  "\<exists>r. (relay_step [10, 20])\<^sup>*\<^sup>* (relay_init demo_down) r \<and> length (ry_links r) = 2 \<and>
     wr_bytes (dn_tcp (ry_down r)) = take (dn_written (ry_down r)) [10, 20]"
proof -
  obtain r where r: "(relay_step [10, 20])\<^sup>*\<^sup>* (relay_init demo_down) r" "length (ry_links r) = 2" using demo_relay by blast
  from relay_exactly_once [OF r(1) demo_down_ready] r show ?thesis by (auto simp: u64_max_def)
qed

text \<open>C3 (safety): a reconnect never meets a gap. In every reachable state the offset the sender would replay from is
  not beyond what the receiver has written, so \<open>deliver_reconnect_stream\<close> does not drop the new
  stream for a gap, and the next chunk of any stream never starts above the receiver's position, so
  the receiver never fails the transfer for one.\<close>

theorem reconnect_never_gaps:
  assumes "(relay_step src)\<^sup>*\<^sup>* (relay_init d) r" and "ready_downlink d" and "length src < u64_max"
  shows "fst (deliver_reconnect_stream \<lparr>dh_queue = q, dh_open = b, dh_bytes_written = dn_written_atomic (ry_down r)\<rparr>
       (sp_bytes_acked (ry_spool r)) l) \<noteq> GapDropped \<and>
    (\<forall>l \<in> set (ry_links r). \<forall>c cs. ln_chunks l = c # cs \<longrightarrow> chunk_offset c \<le> dn_written (ry_down r))"
proof -
  note inv = relay_inv_reachable [OF assms]
  have "chunk_offset c \<le> dn_written (ry_down r)" if "x \<in> set (ry_links r)" "ln_chunks x = c # cs" for x c cs
  proof -
    have "links_ok src (dn_written (ry_down r)) (ry_up r) (ry_q r) (ry_links r)" using inv by (simp add: relay_inv_def)
    then obtain p e where "link_ok src (dn_written (ry_down r)) p x e" using \<open>x \<in> set (ry_links r)\<close> unfolding links_ok_def by blast
    then show ?thesis using that(2) by (cases c) (auto simp: link_ok_def)
  qed
  then show ?thesis using inv by (auto simp: relay_inv_defs delivered_def deliver_reconnect_stream_def)
qed

theorem reconnect_never_gaps_witness:
  "\<exists>r. (relay_step [10, 20])\<^sup>*\<^sup>* (relay_init demo_down) r \<and> length (ry_links r) = 2 \<and>
     fst (deliver_reconnect_stream \<lparr>dh_queue = [], dh_open = True, dh_bytes_written = dn_written_atomic (ry_down r)\<rparr>
       (sp_bytes_acked (ry_spool r)) new_link) \<noteq> GapDropped"
proof -
  obtain r where r: "(relay_step [10, 20])\<^sup>*\<^sup>* (relay_init demo_down) r" "length (ry_links r) = 2" using demo_relay by blast
  from reconnect_never_gaps [OF r(1) demo_down_ready, of "[]" True new_link] r show ?thesis by (auto simp: u64_max_def)
qed

text \<open>The pump's reads of the spool are always in range. In every reachable state with a link, A <= Q <= T,
  so \<open>slice_from\<close> does not panic and yields data whenever Q is below T.\<close>

theorem relay_cursor_in_window:
  assumes "(relay_step src)\<^sup>*\<^sup>* (relay_init d) r" and "ready_downlink d" and "length src < u64_max" and "ry_up r"
  shows "sp_bytes_acked (ry_spool r) \<le> ry_q r \<and> ry_q r \<le> head_offset (ry_spool r) \<and>
    (\<exists>bs. slice_from split (ry_q r) (ry_spool r) = Some bs \<and> (ry_q r < head_offset (ry_spool r) \<longrightarrow> bs \<noteq> []))"
proof -
  have "sp.stores src (ry_spool r)" "sp_bytes_acked (ry_spool r) \<le> ry_q r" "ry_q r \<le> head_offset (ry_spool r)"
    using relay_inv_reachable [OF assms(1-3)] assms(4) by (simp_all add: relay_inv_defs)
  then show ?thesis using sp.get_stores by blast
qed

theorem relay_cursor_in_window_witness:
  "\<exists>r. (relay_step [10, 20])\<^sup>*\<^sup>* (relay_init demo_down) r \<and> length (ry_links r) = 2 \<and> sp_bytes_acked (ry_spool r) \<le> ry_q r"
proof -
  obtain r where r: "(relay_step [10, 20])\<^sup>*\<^sup>* (relay_init demo_down) r" "ry_up r" "length (ry_links r) = 2" using demo_relay by blast
  from relay_cursor_in_window [OF r(1) demo_down_ready _ r(2)] r show ?thesis by (auto simp: u64_max_def)
qed

end
