(* ===== verification/Sender_Refinement.thy ===== *)
theory Sender_Refinement
  imports Relay
begin

text \<open>
  The pump of theory Stream_Pump implements the sender of theory Relay: what \<open>on_ticket\<close> and
  \<open>on_cmd\<close> do, down to the bytes on the wire, is a sequence of the relay's steps. So the end-to-end
  properties of the relay hold of transfers driven by the pump's own code.

  \<open>pump_sim\<close> relates the two. The relay's stream carries chunks where the pump writes bytes: the bytes
  are the encoding of the chunks, and after a failed write a part of one more chunk, which the receiver
  discards (theory Framing).
\<close>

definition pump_sim :: "relay \<Rightarrow> pump \<Rightarrow> bool" where
  "pump_sim r pm \<longleftrightarrow>
     (case pm_phase pm of
        Running \<Rightarrow> ry_up r \<and> ry_q r = pm_q pm \<and> \<not> ry_exited r \<and> \<not> pm_done pm
      | Waiting \<Rightarrow> \<not> ry_up r \<and> \<not> ry_exited r \<and> \<not> pm_done pm
      | Exited \<Rightarrow> ry_exited r
      | Crashed \<Rightarrow> False)"

text \<open>The spool as the pump finds it, when nothing else touches it during the drain.\<close>

definition steady :: "(nat \<Rightarrow> nat) \<Rightarrow> spool \<Rightarrow> spool_env" where
  "steady split s = (\<lambda>q. (split q, s))"

definition sent :: "relay \<Rightarrow> link list \<Rightarrow> link \<Rightarrow> chunk list \<Rightarrow> nat \<Rightarrow> relay" where
  "sent r ls l cs q = r\<lparr>ry_q := q, ry_links := ls @ [l\<lparr>ln_chunks := ln_chunks l @ cs\<rparr>]\<rparr>"

lemma sender_window:
  assumes "relay_inv src r" "ry_up r"
  shows "sp.stores src (ry_spool r)" "sp_bytes_acked (ry_spool r) \<le> ry_q r" "ry_q r \<le> head_offset (ry_spool r)"
    "head_offset (ry_spool r) \<le> length src"
  using assms by (auto simp: relay_inv_defs sp.stores_def)

lemma sent_nil: "ry_links r = ls @ [l] \<Longrightarrow> ry_q r = q \<Longrightarrow> sent r ls l [] q = r"
  by (simp add: sent_def)

lemma sent_sent:
  "sent (sent r ls l cs q) ls (l\<lparr>ln_chunks := ln_chunks l @ cs\<rparr>) ds q' = sent r ls l (cs @ ds) q'"
  by (simp add: sent_def)

text \<open>One chunk.\<close>

lemma send_chunk_step:
  assumes "relay_inv src r" "length src < u64_max" "ry_up r" "ry_links r = ls @ [l]" "\<not> ln_broken l"
    and "ry_q r < head_offset (ry_spool r)" "slice_from k (ry_q r) (ry_spool r) = Some sl"
    and "c = next_chunk n CHUNK_SIZE sl" "c \<noteq> []" "ry_q r + length c \<le> u64_max"
  shows "relay_step src r (sent r ls l [Chunk (ry_q r) c] (ry_q r + length c))"
    "relay_inv src (sent r ls l [Chunk (ry_q r) c] (ry_q r + length c))"
proof -
  have "relay_step src r (r\<lparr>ry_q := add_u64 (ry_q r) (length c), ry_links := ls @ [send_on (ry_q r) c l]\<rparr>)"
    by (rule relay_step.send [OF assms(3,4,6-9)])
  moreover have "r\<lparr>ry_q := add_u64 (ry_q r) (length c), ry_links := ls @ [send_on (ry_q r) c l]\<rparr> =
      sent r ls l [Chunk (ry_q r) c] (ry_q r + length c)"
    using assms(5,10) by (simp add: sent_def send_on_def)
  ultimately show step: "relay_step src r (sent r ls l [Chunk (ry_q r) c] (ry_q r + length c))" by simp
  show "relay_inv src (sent r ls l [Chunk (ry_q r) c] (ry_q r + length c))"
    by (rule relay_inv_step [OF step assms(1,2)])
qed

text \<open>The loop of \<open>drain_alloc\<close>: how far it got, and what it did to the pump.\<close>

definition loop_end :: "relay \<Rightarrow> pump \<Rightarrow> pump \<Rightarrow> drain_end \<Rightarrow> u8 list \<Rightarrow> bool" where
  "loop_end r pm pm' res part \<longleftrightarrow> pm_finishing pm' = pm_finishing pm \<and> pm_phase pm' = pm_phase pm \<and>
    (res = Drained \<and> part = [] \<and>
       (pm_done pm' = pm_done pm \<or> pm_finishing pm \<and> spool_eof (ry_spool r) \<and> head_offset (ry_spool r) \<le> pm_q pm') \<or>
     res = WriteFailed \<and> pm_done pm' = pm_done pm)"

lemma drain_loop_relay:
  assumes "relay_inv src r" "length src < u64_max" "ry_up r" "ry_links r = ls @ [l]" "\<not> ln_broken l" "ry_q r = pm_q pm"
    and "drain_loop (steady split (ry_spool r)) n CHUNK_SIZE pm = (res, pm')"
  shows "\<exists>cs part. (relay_step src)\<^sup>*\<^sup>* r (sent r ls l cs (pm_q pm')) \<and>
    wr_bytes (pm_tx pm') = wr_bytes (pm_tx pm) @ enc_all encode_chunk cs @ part \<and> loop_end r pm pm' res part"
  using assms
proof (induction n arbitrary: r l pm rule: less_induct)
  case (less n)
  note win = sender_window [OF less.prems(1,3)] and same = sent_nil [OF less.prems(4,6)]
  have e: "steady split (ry_spool r) (pm_q pm) = (split (pm_q pm), ry_spool r)" by (simp add: steady_def)
  consider "n = 0" | "0 < n" "head_offset (ry_spool r) \<le> pm_q pm" | "0 < n" "pm_q pm < head_offset (ry_spool r)" by linarith
  then show ?case
  proof cases
    case 1
    then show ?thesis using less.prems(7) same by (intro exI [of _ "[]"]) (auto simp: drain_loop_zero loop_end_def)
  next
    case 2
    then show ?thesis using less.prems(7) same drain_loop_idle [where env = "steady split (ry_spool r)" and pm = pm, OF e 2(2,1), of CHUNK_SIZE]
      by (intro exI [of _ "[]"]) (auto simp: shutdown_def loop_end_def split: if_splits)
  next
    case 3
    obtain sl where sl: "slice_from (split (pm_q pm)) (pm_q pm) (ry_spool r) = Some sl"
      "continues src (pm_q pm) n (next_chunk n CHUNK_SIZE sl)"
      using next_chunk_props [OF win(1) _ 3(2,1)] win(2) less.prems(6) by metis
    define c where "c = next_chunk n CHUNK_SIZE sl"
    have c: "c \<noteq> []" "pm_q pm + length c \<le> u64_max" "length c \<le> n" using sl(2) less.prems(2) by (auto simp: c_def continues_def)
    note w = drain_loop_write [where env = "steady split (ry_spool r)" and pm = pm, OF e 3(2,1) sl(1) c_def c(1,2)]
    show ?thesis
    proof (rule write_all_cases [of "encode_chunk (pm_q pm) c" "''QUIC write error''" "pm_tx pm"])
      fix tx k assume tx: "write_all (encode_chunk (pm_q pm) c) ''QUIC write error'' (pm_tx pm) = (Inl (Transport ''QUIC write error''), tx)"
        "wr_bytes tx = wr_bytes (pm_tx pm) @ take k (encode_chunk (pm_q pm) c)"
      then show ?thesis using same less.prems(7) w
        by (intro exI [of _ "[]"] exI [of _ "take k (encode_chunk (pm_q pm) c)"]) (auto simp: loop_end_def)
    next
      fix tx assume tx: "write_all (encode_chunk (pm_q pm) c) ''QUIC write error'' (pm_tx pm) = (Inr (), tx)"
        "wr_bytes tx = wr_bytes (pm_tx pm) @ encode_chunk (pm_q pm) c"
      let ?r = "sent r ls l [Chunk (pm_q pm) c] (pm_q pm + length c)" and ?l = "l\<lparr>ln_chunks := ln_chunks l @ [Chunk (pm_q pm) c]\<rparr>"
      note step = send_chunk_step [OF less.prems(1-5) _ _ c_def c(1), unfolded less.prems(6), OF 3(2) sl(1) c(2)]
      have "n - length c < n" using c(1,3) by (cases c) auto
      from less.IH [OF this step(2), of ?l "advance c tx pm"] obtain cs part where ih:
        "(relay_step src)\<^sup>*\<^sup>* ?r (sent ?r ls ?l cs (pm_q pm'))" "wr_bytes (pm_tx pm') = wr_bytes tx @ enc_all encode_chunk cs @ part"
        "loop_end r pm pm' res part"
        using less.prems w tx(1) by (auto simp: sent_def advance_def loop_end_def)
      have "(relay_step src)\<^sup>*\<^sup>* r (sent r ls l (Chunk (pm_q pm) c # cs) (pm_q pm'))"
        using converse_rtranclp_into_rtranclp [OF step(1) ih(1)] by (simp add: sent_sent)
      then show ?thesis using ih(2,3) tx(2) by (intro exI [of _ "Chunk (pm_q pm) c # cs"] exI [of _ part]) simp
    qed
  qed
qed

text \<open>A stream that breaks: the sender notices, and its cursor goes back.\<close>

lemma lose_link:
  assumes "ry_up r" "ry_links r = ls @ [l]"
  shows "(relay_step src)\<^sup>*\<^sup>* r (r\<lparr>ry_links := ls @ [l\<lparr>ln_fin := False, ln_broken := True\<rparr>], ry_up := False,
    ry_q := sp_bytes_acked (ry_spool r)\<rparr>)"
proof -
  let ?b = "r\<lparr>ry_links := ls @ [l\<lparr>ln_fin := False, ln_broken := True\<rparr>]\<rparr>"
  have "relay_step src r ?b" using relay_step.break [where k = "length (ln_chunks l)", of r ls l "[]" src] assms(2) by simp
  moreover have "relay_step src ?b (?b\<lparr>ry_up := False, ry_q := sp_bytes_acked (ry_spool ?b)\<rparr>)"
    by (rule relay_step.link_lost) (use assms(1) in auto)
  ultimately show ?thesis by (auto intro: rtranclp.rtrancl_into_rtrancl)
qed

text \<open>The outcome of a drain for the relay: chunks \<open>cs\<close> on the stream, \<open>part\<close> of another one lost.\<close>

definition drain_matches :: "u8 list \<Rightarrow> relay \<Rightarrow> pump \<Rightarrow> pump \<Rightarrow> bool" where
  "drain_matches src r pm pm' \<longleftrightarrow>
     (\<exists>r' cs part l'. (relay_step src)\<^sup>*\<^sup>* r r' \<and> pump_sim r' pm' \<and>
        ry_spool r' = ry_spool r \<and> ry_down r' = ry_down r \<and> ry_links r' = butlast (ry_links r) @ [l'] \<and>
        ln_chunks l' = ln_chunks (last (ry_links r)) @ cs \<and> ln_broken l' = (pm_phase pm' = Waiting) \<and>
        (pm_phase pm' = Exited \<longrightarrow> ln_fin l') \<and>
        wr_bytes (pm_tx pm') = wr_bytes (pm_tx pm) @ enc_all encode_chunk cs @ part \<and> (pm_phase pm' \<noteq> Waiting \<longrightarrow> part = []))"

lemma drain_matchesI:
  assumes "ry_links r = ls @ [l]" "(relay_step src)\<^sup>*\<^sup>* r r'" "pump_sim r' pm'" "ry_spool r' = ry_spool r" "ry_down r' = ry_down r"
    "ry_links r' = ls @ [l']" "ln_chunks l' = ln_chunks l @ cs" "ln_broken l' = (pm_phase pm' = Waiting)"
    "pm_phase pm' = Exited \<Longrightarrow> ln_fin l'"
    "wr_bytes (pm_tx pm') = wr_bytes (pm_tx pm) @ enc_all encode_chunk cs @ part" "pm_phase pm' \<noteq> Waiting \<Longrightarrow> part = []"
  shows "drain_matches src r pm pm'"
  unfolding drain_matches_def using assms by auto

lemma drain_alloc_relay:
  assumes "relay_inv src r" "length src < u64_max" "ry_links r = ls @ [l]" "\<not> ln_broken l"
    and "pm_phase pm = Running" "pump_sim r pm"
    and "drain_alloc (steady split (ry_spool r)) (ry_spool r) n CHUNK_SIZE pm = pm'"
  shows "drain_matches src r pm pm'"
proof -
  have sim: "ry_up r" "ry_q r = pm_q pm" "\<not> ry_exited r" "\<not> pm_done pm" using assms(5,6) by (simp_all add: pump_sim_def)
  obtain res pm1 where l: "drain_loop (steady split (ry_spool r)) n CHUNK_SIZE pm = (res, pm1)" by fastforce
  obtain cs part where d: "(relay_step src)\<^sup>*\<^sup>* r (sent r ls l cs (pm_q pm1))"
    "wr_bytes (pm_tx pm1) = wr_bytes (pm_tx pm) @ enc_all encode_chunk cs @ part"
    "pm_finishing pm1 = pm_finishing pm" "pm_phase pm1 = Running"
    "res = Drained \<and> part = [] \<and>
       (\<not> pm_done pm1 \<or> pm_finishing pm \<and> spool_eof (ry_spool r) \<and> head_offset (ry_spool r) \<le> pm_q pm1) \<or>
     res = WriteFailed \<and> \<not> pm_done pm1"
    using drain_loop_relay [OF assms(1,2) sim(1) assms(3,4) sim(2) l] assms(5) sim(4) by (auto simp: loop_end_def)
  define r1 where "r1 = sent r ls l cs (pm_q pm1)"
  have r1: "ry_up r1" "ry_links r1 = ls @ [l\<lparr>ln_chunks := ln_chunks l @ cs\<rparr>]" "ry_q r1 = pm_q pm1" "\<not> ry_exited r1"
    "ry_spool r1 = ry_spool r" "ry_down r1 = ry_down r" using sim by (simp_all add: r1_def sent_def)
  let ?fin = "pm_finishing pm \<and> spool_eof (ry_spool r) \<and> head_offset (ry_spool r) \<le> pm_q pm1"
  have fin_iff: "pm_finishing pm1 \<and> sp_head (ry_spool r) = u64_max \<and> saturating_sub_u64 (head_offset (ry_spool r)) (pm_q pm1) = 0 \<longleftrightarrow> ?fin"
    using d(3) by (auto simp: spool_eof_def saturating_sub_u64_def)
  consider (failed) "res = WriteFailed" "\<not> pm_done pm1" | (exit) "res = Drained" "part = []" "?fin"
    | (more) "res = Drained" "part = []" "\<not> ?fin" "\<not> pm_done pm1" using d(5) by blast
  then show ?thesis
  proof cases
    case failed
    have pm': "pm' = pm1\<lparr>pm_phase := Waiting\<rparr>" using assms(7) l failed by (simp add: drain_alloc_def)
    have "(relay_step src)\<^sup>*\<^sup>* r (r1\<lparr>ry_links := ls @ [l\<lparr>ln_chunks := ln_chunks l @ cs, ln_fin := False, ln_broken := True\<rparr>],
        ry_up := False, ry_q := sp_bytes_acked (ry_spool r1)\<rparr>)"
      using rtranclp_trans [OF d(1) [folded r1_def] lose_link [OF r1(1,2)]] by simp
    then show ?thesis by (rule drain_matchesI [OF assms(3)]) (use r1 d pm' failed in \<open>auto simp: pump_sim_def\<close>)
  next
    case exit
    have pm': "pm' = (shutdown pm1)\<lparr>pm_phase := Exited\<rparr>" using assms(7) l exit fin_iff by (simp add: drain_alloc_def Let_def shutdown_def)
    have "relay_step src r1 (r1\<lparr>ry_exited := True, ry_links := ls @ [l\<lparr>ln_chunks := ln_chunks l @ cs, ln_fin := True\<rparr>]\<rparr>)"
      using relay_step.send_fin [OF r1(1,2), of src] exit(3) r1 assms(4) by simp
    then have "(relay_step src)\<^sup>*\<^sup>* r (r1\<lparr>ry_exited := True, ry_links := ls @ [l\<lparr>ln_chunks := ln_chunks l @ cs, ln_fin := True\<rparr>]\<rparr>)"
      using d(1) unfolding r1_def by (rule rtranclp.rtrancl_into_rtrancl [rotated])
    then show ?thesis by (rule drain_matchesI [OF assms(3), where l' = "l\<lparr>ln_chunks := ln_chunks l @ cs, ln_fin := True\<rparr>" and cs = cs and part = part])
        (use r1 d pm' exit assms(4) in \<open>auto simp: pump_sim_def shutdown_def\<close>)
  next
    case more
    have pm': "pm' = pm1" using assms(7) l more fin_iff by (auto simp: drain_alloc_def Let_def)
    show ?thesis by (rule drain_matchesI [OF assms(3) d(1) [folded r1_def], where l' = "l\<lparr>ln_chunks := ln_chunks l @ cs\<rparr>" and cs = cs and part = part])
        (use r1 d pm' more assms(4) in \<open>auto simp: pump_sim_def\<close>)
  qed
qed

text \<open>The pump's events, one by one.\<close>

lemma relay_last_link:
  assumes "relay_inv src r"
  obtains ls l where "ry_links r = ls @ [l]"
proof -
  have "ry_links r \<noteq> []" using assms by (simp add: relay_inv_def links_ok_def)
  then show ?thesis using that by (metis rev_exhaust)
qed

lemma on_ticket_relay:
  assumes "relay_inv src r" "length src < u64_max" "pump_sim r pm" "pm_phase pm = Running" "\<not> ln_broken (last (ry_links r))"
  shows "drain_matches src r pm (on_ticket (steady split (ry_spool r)) (ry_spool r) (Some n) pm)"
proof -
  obtain ls l where ls: "ry_links r = ls @ [l]" by (rule relay_last_link [OF assms(1)])
  show ?thesis using drain_alloc_relay [OF assms(1,2) ls _ assms(4,3) refl, of split n] assms(4,5) ls by (simp add: on_ticket_def)
qed

lemma on_finish_relay:
  assumes "relay_inv src r" "length src < u64_max" "pump_sim r pm" "pm_phase pm = Running" "\<not> ln_broken (last (ry_links r))"
  shows "drain_matches src r pm (on_cmd (steady split (ry_spool r)) (ry_spool r) (ry_spool r) (Some Finish) pm)"
proof -
  obtain ls l where ls: "ry_links r = ls @ [l]" by (rule relay_last_link [OF assms(1)])
  let ?f = "pm\<lparr>pm_finishing := True\<rparr>"
  have f: "pm_phase ?f = Running" "pump_sim r ?f" using assms(3,4) by (simp_all add: pump_sim_def)
  have "drain_matches src r ?f (on_cmd (steady split (ry_spool r)) (ry_spool r) (ry_spool r) (Some Finish) pm)"
  proof (cases "saturating_sub_u64 (head_offset (ry_spool r)) (pm_q pm) = 0")
    case True
    then show ?thesis using drain_alloc_relay [OF assms(1,2) ls _ f refl, of split 1] assms(4,5) ls
      by (simp add: on_cmd_def running_cmd_def Let_def)
  next
    case False
    then have "on_cmd (steady split (ry_spool r)) (ry_spool r) (ry_spool r) (Some Finish) pm = ?f"
      using assms(4) by (simp add: on_cmd_def running_cmd_def Let_def)
    then show ?thesis using f assms(4,5) ls
      by (intro drain_matchesI [OF ls rtranclp.rtrancl_refl, where l' = l and cs = "[]" and part = "[]"]) simp_all
  qed
  then show ?thesis by (simp add: drain_matches_def)
qed

lemma on_link_down_relay:
  assumes "relay_inv src r" "pump_sim r pm" "pm_phase pm = Running"
  shows "\<exists>r'. (relay_step src)\<^sup>*\<^sup>* r r' \<and> pump_sim r' (on_cmd env post (ry_spool r) (Some LinkDown) pm)"
proof -
  obtain ls l where ls: "ry_links r = ls @ [l]" by (rule relay_last_link [OF assms(1)])
  have "ry_up r" using assms(2,3) by (simp add: pump_sim_def)
  from lose_link [OF this ls, of src] show ?thesis
    using assms(2,3) by (intro exI conjI) (assumption, simp add: pump_sim_def on_cmd_def running_cmd_def rewind_def)
qed

lemma on_link_up_relay:
  assumes "pump_sim r pm" "pm_phase pm = Waiting"
    and "fst (deliver_reconnect_stream \<lparr>dh_queue = tl (ry_links r), dh_open = (dn_phase (ry_down r) \<noteq> DnEnded),
      dh_bytes_written = dn_written_atomic (ry_down r)\<rparr> (sp_bytes_acked (ry_spool r)) new_link) = Delivered"
  shows "\<exists>r'. (relay_step src)\<^sup>*\<^sup>* r r' \<and> pump_sim r' (on_cmd env post (ry_spool r) (Some (LinkUp tx)) pm) \<and>
    ry_links r' = ry_links r @ [new_link]"
proof -
  have "\<not> ry_up r" "\<not> ry_exited r" using assms(1,2) by (simp_all add: pump_sim_def)
  from r_into_rtranclp [of "relay_step src", OF relay_step.reconnect [OF this assms(3)]] show ?thesis
    using assms(1,2) by (intro exI conjI) (assumption, simp_all add: pump_sim_def on_cmd_def wait_for_link_up_def rewind_def)
qed



end
