(* ===== verification/Quic.thy ===== *)
theory Quic
  imports Domain
begin

text \<open>
  The QUIC transport (quelay-quic): streams and their halves (stream.rs), sessions (session.rs), the
  transport and its listener (transport.rs), errors (error.rs).

  The quinn library is an argument: the state of a send stream with what \<open>finish\<close>, \<open>reset\<close> and a write do
  to it, what a connection answers when a stream is opened, and its statistics. TLS is not modelled.
\<close>

section \<open>Errors\<close>

datatype quic_error =
    Endpoint string
  | ConnectFailed string
  | ConnectionLost string
  | WriteFailed string
  | ReadFailed string
  | AlreadyFinishedError

text \<open>The texts \<open>to_string\<close> gives, from the attributes of the enum.\<close>

fun quic_error_text :: "quic_error \<Rightarrow> string" where
  "quic_error_text (Endpoint e) = ''QUIC endpoint error: '' @ e"
| "quic_error_text (ConnectFailed e) = ''QUIC connect failed: '' @ e"
| "quic_error_text (ConnectionLost e) = ''QUIC connection lost: '' @ e"
| "quic_error_text (WriteFailed e) = ''QUIC write failed: '' @ e"
| "quic_error_text (ReadFailed e) = ''QUIC read failed: '' @ e"
| "quic_error_text AlreadyFinishedError = ''stream already finished''"

definition from_quic_error :: "quic_error \<Rightarrow> quelay_error" where
  "from_quic_error e = Transport (quic_error_text e)"

section \<open>Streams\<close>

datatype 'a poll = Pending | Ready 'a

record ('s, 'r) quic_stream =
  qs_id :: uuid
  qs_send :: 's
  qs_recv :: 'r
  qs_finished :: bool

record 's quic_send_half =
  qh_send :: 's
  qh_finished :: bool

definition into_split :: "('s, 'r) quic_stream \<Rightarrow> 'r \<times> 's quic_send_half" where
  "into_split st = (qs_recv st, \<lparr>qh_send = qs_send st, qh_finished = qs_finished st\<rparr>)"

definition quic_finish :: "('s \<Rightarrow> 's) \<Rightarrow> ('s, 'r) quic_stream \<Rightarrow> (quelay_error + unit) \<times> ('s, 'r) quic_stream" where
  "quic_finish send_finish st =
     (if qs_finished st then (Inl AlreadyFinished, st)
      else (Inr (), st\<lparr>qs_finished := True, qs_send := send_finish (qs_send st)\<rparr>))"

text \<open>\<open>VarInt::MAX\<close>, the largest integer of 62 bits.\<close>

definition VARINT_MAX :: nat where "VARINT_MAX = 2 ^ 62 - 1"

definition quic_reset :: "(nat \<Rightarrow> 's \<Rightarrow> 's) \<Rightarrow> nat \<Rightarrow> ('s, 'r) quic_stream \<Rightarrow> (quelay_error + unit) \<times> ('s, 'r) quic_stream" where
  "quic_reset send_reset code st =
     (let var = (if code \<le> VARINT_MAX then code else VARINT_MAX)
      in (Inr (), st\<lparr>qs_finished := True, qs_send := send_reset var (qs_send st)\<rparr>))"

definition quic_poll_write :: "(u8 list \<Rightarrow> 's \<Rightarrow> (string + nat) poll \<times> 's) \<Rightarrow> u8 list \<Rightarrow> ('s, 'r) quic_stream \<Rightarrow>
    (quelay_error + nat) poll \<times> ('s, 'r) quic_stream" where
  "quic_poll_write send_write data st =
     (case send_write data (qs_send st) of
        (Ready (Inr n), s) \<Rightarrow> (Ready (Inr n), st\<lparr>qs_send := s\<rparr>)
      | (Ready (Inl e), s) \<Rightarrow> (Ready (Inl (Io e)), st\<lparr>qs_send := s\<rparr>)
      | (Pending, s) \<Rightarrow> (Pending, st\<lparr>qs_send := s\<rparr>))"

definition quic_poll_shutdown :: "('s \<Rightarrow> 's) \<Rightarrow> ('s, 'r) quic_stream \<Rightarrow> unit poll \<times> ('s, 'r) quic_stream" where
  "quic_poll_shutdown send_finish st =
     (Ready (), if qs_finished st then st else st\<lparr>qs_finished := True, qs_send := send_finish (qs_send st)\<rparr>)"

definition finish_non_blocking :: "('s \<Rightarrow> 's) \<Rightarrow> 's quic_send_half \<Rightarrow> 's quic_send_half" where
  "finish_non_blocking send_finish h =
     (if qh_finished h then h else h\<lparr>qh_finished := True, qh_send := send_finish (qh_send h)\<rparr>)"

definition half_poll_write :: "(u8 list \<Rightarrow> 's \<Rightarrow> (string + nat) poll \<times> 's) \<Rightarrow> u8 list \<Rightarrow> 's quic_send_half \<Rightarrow>
    (quelay_error + nat) poll \<times> 's quic_send_half" where
  "half_poll_write send_write data h =
     (case send_write data (qh_send h) of
        (Ready (Inr n), s) \<Rightarrow> (Ready (Inr n), h\<lparr>qh_send := s\<rparr>)
      | (Ready (Inl e), s) \<Rightarrow> (Ready (Inl (Io e)), h\<lparr>qh_send := s\<rparr>)
      | (Pending, s) \<Rightarrow> (Pending, h\<lparr>qh_send := s\<rparr>))"

definition half_poll_shutdown :: "('s \<Rightarrow> 's) \<Rightarrow> 's quic_send_half \<Rightarrow> unit poll \<times> 's quic_send_half" where
  "half_poll_shutdown send_finish h = (Ready (), finish_non_blocking send_finish h)"

section \<open>Sessions\<close>

text \<open>A connection is a value of type \<open>'c\<close>; \<open>open_bi\<close> and \<open>accept_bi\<close> give the two halves of a stream.\<close>

record 'c quic_session =
  qn_conn :: 'c
  qn_link_state :: link_state

definition session_new :: "'c \<Rightarrow> 'c quic_session" where
  "session_new conn = \<lparr>qn_conn = conn, qn_link_state = Normal\<rparr>"

definition set_link_state :: "link_state \<Rightarrow> 'c quic_session \<Rightarrow> 'c quic_session" where
  "set_link_state state s = s\<lparr>qn_link_state := state\<rparr>"

definition open_stream :: "('c \<Rightarrow> string + 's \<times> 'r) \<Rightarrow> uuid \<Rightarrow> 'c quic_session \<Rightarrow> quelay_error + ('s, 'r) quic_stream" where
  "open_stream open_bi new_id s =
     (case open_bi (qn_conn s) of
        Inl e \<Rightarrow> Inl (from_quic_error (ConnectionLost e))
      | Inr (send, recv) \<Rightarrow> Inr \<lparr>qs_id = new_id, qs_send = send, qs_recv = recv, qs_finished = False\<rparr>)"

definition accept_stream :: "('c \<Rightarrow> string + 's \<times> 'r) \<Rightarrow> uuid \<Rightarrow> 'c quic_session \<Rightarrow> quelay_error + ('s, 'r) quic_stream" where
  "accept_stream accept_bi new_id s =
     (case accept_bi (qn_conn s) of
        Inl e \<Rightarrow> Inl (from_quic_error (ConnectionLost e))
      | Inr (send, recv) \<Rightarrow> Inr \<lparr>qs_id = new_id, qs_send = send, qs_recv = recv, qs_finished = False\<rparr>)"

definition session_close :: "('c \<Rightarrow> 'c) \<Rightarrow> 'c quic_session \<Rightarrow> (quelay_error + unit) \<times> 'c quic_session" where
  "session_close conn_close s = (Inr (), (set_link_state Failed s)\<lparr>qn_conn := conn_close (qn_conn s)\<rparr>)"

section \<open>Transport\<close>

record 'e quic_transport =
  qt_endpoint :: 'e
  qt_server_name :: "string option"

definition transport_connect :: "('e \<Rightarrow> nat \<Rightarrow> string \<Rightarrow> string + 'c) \<Rightarrow> nat \<Rightarrow> 'e quic_transport \<Rightarrow> quelay_error + 'c quic_session" where
  "transport_connect endpoint_connect remote t =
     (case qt_server_name t of
        None \<Rightarrow> Inl (Transport ''connect() called on server-side transport'')
      | Some server_name \<Rightarrow>
          (case endpoint_connect (qt_endpoint t) remote server_name of
             Inl e \<Rightarrow> Inl (Transport e)
           | Inr conn \<Rightarrow> Inr (session_new conn)))"

text \<open>The listener: the incoming connections, in the order their handshakes end; those that fail are
  logged and dropped.\<close>

definition transport_listen :: "(string + 'c) list \<Rightarrow> 'c quic_session list" where
  "transport_listen incoming = List.map_filter (\<lambda>i. case i of Inr conn \<Rightarrow> Some (session_new conn) | Inl e \<Rightarrow> None) incoming"

section \<open>A stream ends once\<close>

datatype stream_op = OpFinish | OpReset nat | OpShutdown | OpWrite "u8 list"

text \<open>The stream over a send half that records what reaches quinn.\<close>

datatype send_event = Fin | Rst nat | Wrote "u8 list"

definition log_write :: "u8 list \<Rightarrow> send_event list \<Rightarrow> (string + nat) poll \<times> send_event list" where
  "log_write data es = (Ready (Inr (length data)), es @ [Wrote data])"

fun stream_op_step :: "stream_op \<Rightarrow> (send_event list, 'r) quic_stream \<Rightarrow> (send_event list, 'r) quic_stream" where
  "stream_op_step OpFinish st = snd (quic_finish (\<lambda>es. es @ [Fin]) st)"
| "stream_op_step (OpReset code) st = snd (quic_reset (\<lambda>c es. es @ [Rst c]) code st)"
| "stream_op_step OpShutdown st = snd (quic_poll_shutdown (\<lambda>es. es @ [Fin]) st)"
| "stream_op_step (OpWrite data) st = snd (quic_poll_write log_write data st)"

definition stream_ops :: "stream_op list \<Rightarrow> (send_event list, 'r) quic_stream \<Rightarrow> (send_event list, 'r) quic_stream" where
  "stream_ops ops st = foldl (\<lambda>st op. stream_op_step op st) st ops"

definition ends :: "send_event list \<Rightarrow> send_event list" where
  "ends es = filter (\<lambda>e. case e of Wrote _ \<Rightarrow> False | _ \<Rightarrow> True) es"

definition fin_inv :: "(send_event list, 'r) quic_stream \<Rightarrow> bool" where
  "fin_inv st \<longleftrightarrow> count_list (qs_send st) Fin \<le> 1 \<and> (qs_finished st \<longleftrightarrow> ends (qs_send st) \<noteq> []) \<and>
     Fin \<notin> set (tl (ends (qs_send st)))"

lemma ends_append [simp]: "ends (xs @ ys) = ends xs @ ends ys"
  by (simp add: ends_def)

lemma ends_simps [simp]: "ends [Fin] = [Fin]" "ends [Rst c] = [Rst c]" "ends [Wrote d] = []" "ends [] = []"
  by (simp_all add: ends_def)

lemma ends_empty_no_fin: "ends es = [] \<Longrightarrow> count_list es Fin = 0"
  by (induction es) (auto simp: ends_def split: send_event.splits if_splits)

lemma fin_inv_step: "fin_inv st \<Longrightarrow> fin_inv (stream_op_step op st)"
proof (cases op)
  case (OpReset code)
  then show "fin_inv st \<Longrightarrow> fin_inv (stream_op_step op st)"
    by (cases "ends (qs_send st)") (auto simp: fin_inv_def quic_reset_def Let_def)
qed (auto simp: fin_inv_def quic_finish_def quic_poll_shutdown_def quic_poll_write_def log_write_def ends_empty_no_fin)

lemma fin_inv_ops: "fin_inv st \<Longrightarrow> fin_inv (stream_ops ops st)"
  by (induction ops arbitrary: st) (simp_all add: stream_ops_def fin_inv_step)

text \<open>Whatever sequence of finishes, resets, shutdowns and writes a stream meets, at most one FIN
  reaches quinn and never after a reset; and \<open>finish\<close> is refused exactly when the stream was finished, shut
  down or reset before.\<close>

theorem quic_fin_once:
  assumes "st = stream_ops ops \<lparr>qs_id = i, qs_send = [], qs_recv = r, qs_finished = False\<rparr>"
  shows "count_list (qs_send st) Fin \<le> 1 \<and> Fin \<notin> set (tl (ends (qs_send st))) \<and>
    (fst (quic_finish send_finish st) = Inl AlreadyFinished \<longleftrightarrow> ends (qs_send st) \<noteq> [])"
proof -
  have "fin_inv st" unfolding assms by (rule fin_inv_ops) (simp add: fin_inv_def)
  then show ?thesis by (simp add: fin_inv_def quic_finish_def)
qed

text \<open>A session is up from its creation until it is closed, and then reported as failed.\<close>

lemma session_link_state:
  "qn_link_state (session_new conn) = Normal" "qn_link_state (snd (session_close f s)) = Failed"
  by (simp_all add: session_new_def session_close_def set_link_state_def)

end
