(* ===== verification/Drr_Scheduler.thy ===== *)
theory Drr_Scheduler
  imports Domain
begin

text \<open>
  The Deficit Round Robin scheduler of quelay-domain (scheduler.rs).

  \<open>schedule\<close> serves the strict queue first, each stream up to \<open>min(backlog, quantum)\<close>, then gives
  every bulk stream one turn (\<open>phase1\<close>) and then further turns while budget remains and some
  stream still has data (\<open>phase2\<close>). The deficit is a \<open>u32\<close> and wraps. An error leaves the
  scheduler in the state it had reached, so every function returns the state beside its result.
  The bulk allocations are collected in a \<open>HashMap\<close> and appended in that map's iteration order,
  which Rust leaves open. Since the keys are distinct, every such order is the order of some rank
  of the keys: the parameter \<open>rank\<close>, of which nothing is assumed.
\<close>

section \<open>State\<close>

definition BULK_QUANTUM_BYTES :: nat where
  "BULK_QUANTUM_BYTES = 4 * 1024"

record stream_entry =
  se_priority :: priority
  se_deficit :: nat
  se_quantum :: nat
  se_backlog :: nat

record drr_scheduler =
  drr_streams :: "uuid \<rightharpoonup> stream_entry"
  bulk_order :: "uuid list"
  c2i_queue :: "uuid list"

definition drr_new :: drr_scheduler where
  "drr_new = \<lparr>drr_streams = Map.empty, bulk_order = [], c2i_queue = []\<rparr>"

section \<open>Registration\<close>

definition c2i_priority_of :: "(uuid \<rightharpoonup> stream_entry) \<Rightarrow> uuid \<Rightarrow> priority" where
  "c2i_priority_of m i = unwrap_or (map_option se_priority (m i)) (from_i8 0)"

definition c2i_insert :: "(uuid \<rightharpoonup> stream_entry) \<Rightarrow> priority \<Rightarrow> uuid \<Rightarrow> uuid list \<Rightarrow> uuid list" where
  "c2i_insert m p i queue =
     vec_insert (unwrap_or (position (\<lambda>other. c2i_priority_of m other < p) queue) (length queue)) i queue"

fun set_quanta :: "nat \<Rightarrow> uuid list \<Rightarrow> (uuid \<rightharpoonup> stream_entry) \<Rightarrow> (uuid \<rightharpoonup> stream_entry)" where
  "set_quanta q [] m = m"
| "set_quanta q (i # is) m =
     set_quanta q is (case m i of None \<Rightarrow> m | Some e \<Rightarrow> m(i \<mapsto> e\<lparr>se_quantum := q\<rparr>))"

definition rebalance :: "drr_scheduler \<Rightarrow> drr_scheduler" where
  "rebalance s =
     (if bulk_order s = [] then s
      else s\<lparr>drr_streams := set_quanta BULK_QUANTUM_BYTES (bulk_order s) (drr_streams s)\<rparr>)"

definition register :: "uuid \<Rightarrow> priority \<Rightarrow> drr_scheduler \<Rightarrow> drr_scheduler" where
  "register i p s =
     (let e = \<lparr>se_priority = p, se_deficit = 0, se_quantum = initial_quantum p, se_backlog = 0\<rparr>;
          m = (drr_streams s)(i \<mapsto> e)
      in if is_strict p
         then s\<lparr>drr_streams := m, c2i_queue := c2i_insert m p i (c2i_queue s)\<rparr>
         else rebalance (s\<lparr>drr_streams := m, bulk_order := bulk_order s @ [i]\<rparr>))"

definition deregister :: "uuid \<Rightarrow> drr_scheduler \<Rightarrow> drr_scheduler" where
  "deregister i s =
     (case drr_streams s i of
        None \<Rightarrow> s
      | Some e \<Rightarrow>
          let m = (drr_streams s)(i := None)
          in if is_strict (se_priority e)
             then s\<lparr>drr_streams := m, c2i_queue := filter (\<lambda>x. x \<noteq> i) (c2i_queue s)\<rparr>
             else rebalance (s\<lparr>drr_streams := m, bulk_order := filter (\<lambda>x. x \<noteq> i) (bulk_order s)\<rparr>))"

definition set_quantum :: "uuid \<Rightarrow> nat \<Rightarrow> drr_scheduler \<Rightarrow> drr_scheduler" where
  "set_quantum i q s =
     (case drr_streams s i of
        None \<Rightarrow> s
      | Some e \<Rightarrow> s\<lparr>drr_streams := (drr_streams s)(i \<mapsto> e\<lparr>se_quantum := q\<rparr>)\<rparr>)"

definition set_backlog :: "uuid \<Rightarrow> nat \<Rightarrow> drr_scheduler \<Rightarrow> drr_scheduler" where
  "set_backlog i b s =
     (case drr_streams s i of
        None \<Rightarrow> s
      | Some e \<Rightarrow> s\<lparr>drr_streams := (drr_streams s)(i \<mapsto> e\<lparr>se_backlog := b\<rparr>)\<rparr>)"

section \<open>Scheduling\<close>

type_synonym allocs = "(uuid \<times> nat) list"

fun schedule_c2i ::
  "(uuid \<rightharpoonup> stream_entry) \<Rightarrow> uuid list \<Rightarrow> nat \<Rightarrow> allocs \<Rightarrow> quelay_error + allocs \<times> nat" where
  "schedule_c2i m [] budget result = Inr (result, budget)"
| "schedule_c2i m (i # is) budget result =
     (if budget = 0 then Inr (result, budget)
      else case m i of
             None \<Rightarrow> Inl (StreamNotFound i)
           | Some e \<Rightarrow>
               let send = min (min budget (se_backlog e)) (se_quantum e)
               in if 0 < send
                  then schedule_c2i m is (budget - send) (result @ [(i, send)])
                  else schedule_c2i m is budget result)"

text \<open>One turn of one bulk stream: the new entry and the bytes it may send.\<close>

definition bulk_turn :: "stream_entry \<Rightarrow> nat \<Rightarrow> stream_entry \<times> nat" where
  "bulk_turn e budget =
     (let d = add_u32 (se_deficit e) (se_quantum e);
          send = min (min budget d) (se_backlog e)
      in if 0 < send then (e\<lparr>se_deficit := d - send\<rparr>, send) else (e\<lparr>se_deficit := 0\<rparr>, 0))"

text \<open>\<open>*bulk_allocs.entry(id).or_insert(0) += send\<close>\<close>

fun alloc_add :: "uuid \<Rightarrow> nat \<Rightarrow> allocs \<Rightarrow> allocs" where
  "alloc_add i n [] = [(i, n)]"
| "alloc_add i n ((j, k) # as) = (if i = j then (j, k + n) # as else (j, k) # alloc_add i n as)"

record bulk_state =
  bs_streams :: "uuid \<rightharpoonup> stream_entry"
  bs_order :: "uuid list"
  bs_allocs :: allocs
  bs_budget :: nat

text \<open>
  The body the two loops share: the stream at the front gets a turn and moves to the back.
  \<open>front()\<close> is \<open>Some\<close> whenever the body runs, since both loops are bounded by the number n of
  streams in the order; the empty case changes nothing.
\<close>

definition bulk_visit :: "bulk_state \<Rightarrow> quelay_error option \<times> nat \<times> bulk_state" where
  "bulk_visit b =
     (case bs_order b of
        [] \<Rightarrow> (None, 0, b)
      | i # is \<Rightarrow>
          (case bs_streams b i of
             None \<Rightarrow> (Some (StreamNotFound i), 0, b)
           | Some e \<Rightarrow>
               let (e', send) = bulk_turn e (bs_budget b)
               in (None, send,
                   b\<lparr>bs_streams := (bs_streams b)(i \<mapsto> e'),
                     bs_order := is @ [i],
                     bs_allocs := (if 0 < send then alloc_add i send (bs_allocs b) else bs_allocs b),
                     bs_budget := bs_budget b - send\<rparr>)))"

fun phase1 :: "nat \<Rightarrow> bulk_state \<Rightarrow> quelay_error option \<times> bulk_state" where
  "phase1 0 b = (None, b)"
| "phase1 (Suc k) b =
     (if bs_budget b = 0 then (None, b)
      else case bulk_visit b of
             (Some e, _, b') \<Rightarrow> (Some e, b')
           | (None, _, b') \<Rightarrow> phase1 k b')"

lemma bulk_visit_budget:
  "bulk_visit b = (err, send, b') \<Longrightarrow> send \<le> bs_budget b \<and> bs_budget b' = bs_budget b - send"
  by (auto simp: bulk_visit_def bulk_turn_def Let_def split: list.splits option.splits if_splits)

function phase2 :: "nat \<Rightarrow> nat \<Rightarrow> bulk_state \<Rightarrow> quelay_error option \<times> bulk_state" where
  "phase2 n idle b =
     (if 0 < bs_budget b \<and> idle < n
      then case bulk_visit b of
             (Some e, _, b') \<Rightarrow> (Some e, b')
           | (None, send, b') \<Rightarrow> phase2 n (if 0 < send then 0 else Suc idle) b'
      else (None, b))"
  by pat_completeness auto
termination
  by (relation "measures [\<lambda>(n, idle, b). bs_budget b, \<lambda>(n, idle, b). n - idle]")
     (auto dest!: bulk_visit_budget [OF sym])

declare phase2.simps [simp del]

definition hash_order :: "(uuid \<Rightarrow> nat) \<Rightarrow> allocs \<Rightarrow> allocs" where
  "hash_order rank as = sort_key (\<lambda>a. rank (fst a)) as"

definition schedule ::
  "(uuid \<Rightarrow> nat) \<Rightarrow> nat \<Rightarrow> drr_scheduler \<Rightarrow> (quelay_error + allocs) \<times> drr_scheduler" where
  "schedule rank budget s =
     (case schedule_c2i (drr_streams s) (c2i_queue s) budget [] of
        Inl e \<Rightarrow> (Inl e, s)
      | Inr (result, budget') \<Rightarrow>
          let n = length (bulk_order s)
          in if n = 0 \<or> budget' = 0 then (Inr result, s)
             else case phase1 n \<lparr>bs_streams = drr_streams s, bs_order = bulk_order s, bs_allocs = [],
                                 bs_budget = budget'\<rparr> of
                    (Some e, b1) \<Rightarrow>
                      (Inl e, s\<lparr>drr_streams := bs_streams b1, bulk_order := bs_order b1\<rparr>)
                  | (None, b1) \<Rightarrow>
                      (case phase2 n 0 b1 of
                         (Some e, b2) \<Rightarrow>
                           (Inl e, s\<lparr>drr_streams := bs_streams b2, bulk_order := bs_order b2\<rparr>)
                       | (None, b2) \<Rightarrow>
                           (Inr (result @ hash_order rank (bs_allocs b2)),
                            s\<lparr>drr_streams := bs_streams b2, bulk_order := bs_order b2\<rparr>)))"


section \<open>Invariant\<close>

interpretation c2i: priority_order "c2i_priority_of m" "\<lambda>i. c2i_insert m (c2i_priority_of m i) i" for m
  by unfold_locales (auto simp: c2i_insert_def intro!: insert_before_lower_split)

definition wf_drr :: "drr_scheduler \<Rightarrow> bool" where
  "wf_drr s \<longleftrightarrow>
     distinct (bulk_order s) \<and> distinct (c2i_queue s) \<and>
     (\<forall>i. i \<in> set (bulk_order s) \<longleftrightarrow> (\<exists>e. drr_streams s i = Some e \<and> \<not> is_strict (se_priority e))) \<and>
     (\<forall>i. i \<in> set (c2i_queue s) \<longleftrightarrow> (\<exists>e. drr_streams s i = Some e \<and> is_strict (se_priority e))) \<and>
     sorted_wrt (\<lambda>i j. c2i_priority_of (drr_streams s) j \<le> c2i_priority_of (drr_streams s) i) (c2i_queue s)"

text \<open>Everything of the stream table that scheduling leaves alone: the entries without deficits.\<close>

definition static :: "(uuid \<rightharpoonup> stream_entry) \<Rightarrow> (uuid \<rightharpoonup> stream_entry)" where
  "static m = (\<lambda>i. map_option (\<lambda>e. e\<lparr>se_deficit := 0\<rparr>) (m i))"

lemma static_Some:
  assumes "static m' = static m" and "m i = Some e"
  obtains e' where "m' i = Some e'" "se_priority e' = se_priority e"
    "se_quantum e' = se_quantum e" "se_backlog e' = se_backlog e"
proof -
  from assms have "map_option (\<lambda>e. e\<lparr>se_deficit := 0\<rparr>) (m' i) = Some (e\<lparr>se_deficit := 0\<rparr>)"
    unfolding static_def by (metis option.simps(9))
  then obtain e' where e': "m' i = Some e'" "e'\<lparr>se_deficit := 0\<rparr> = e\<lparr>se_deficit := 0\<rparr>"
    by (cases "m' i") auto
  from e'(2) have "se_priority e' = se_priority e" "se_quantum e' = se_quantum e" "se_backlog e' = se_backlog e"
    by (cases e; cases e'; simp)+
  with e'(1) that show ?thesis by blast
qed

lemma static_priority:
  assumes "static m' = static m"
  shows "map_option se_priority (m' i) = map_option se_priority (m i)"
proof (cases "m i")
  case None
  with assms have "m' i = None" unfolding static_def by (metis map_option_is_None)
  with None show ?thesis by simp
next
  case (Some e)
  then show ?thesis using assms by (auto elim!: static_Some)
qed

lemma wf_drr_cong:
  assumes wf: "wf_drr s" and st: "\<And>i. map_option se_priority (m' i) = map_option se_priority (drr_streams s i)"
    and os: "set os = set (bulk_order s)" "distinct os"
  shows "wf_drr (s\<lparr>drr_streams := m', bulk_order := os\<rparr>)"
proof -
  have ex: "(\<exists>e. m' i = Some e \<and> Q (se_priority e)) \<longleftrightarrow> (\<exists>e. drr_streams s i = Some e \<and> Q (se_priority e))" for i Q
    using st [of i] by (cases "m' i"; cases "drr_streams s i") auto
  note ex [of _ is_strict] ex [of _ "\<lambda>p. \<not> is_strict p"]
  moreover have "c2i_priority_of m' = c2i_priority_of (drr_streams s)"
    using st by (auto simp: c2i_priority_of_def)
  ultimately show ?thesis using wf os by (simp add: wf_drr_def)
qed

lemma wf_drr_streams_cong:
  assumes "wf_drr s" and "\<And>i. map_option se_priority (m' i) = map_option se_priority (drr_streams s i)"
  shows "wf_drr (s\<lparr>drr_streams := m'\<rparr>)"
proof -
  have "wf_drr (s\<lparr>drr_streams := m', bulk_order := bulk_order s\<rparr>)"
    by (rule wf_drr_cong) (use assms in \<open>auto simp: wf_drr_def\<close>)
  then show ?thesis by simp
qed

lemma set_quanta_priority: "map_option se_priority (set_quanta q is m i) = map_option se_priority (m i)"
  by (induction q "is" m rule: set_quanta.induct) (auto split: option.splits)

lemma set_quanta_lookup:
  "set_quanta q is m i = (if i \<in> set is then map_option (\<lambda>e. e\<lparr>se_quantum := q\<rparr>) (m i) else m i)"
  by (induction q "is" m rule: set_quanta.induct) (auto split: option.splits)

lemma wf_drr_new [wf_intros]: "wf_drr drr_new"
  by (simp add: wf_drr_def drr_new_def)

lemma wf_drr_rebalance [wf_intros]: "wf_drr s \<Longrightarrow> wf_drr (rebalance s)"
  by (simp add: rebalance_def wf_drr_streams_cong set_quanta_priority)

lemma wf_drr_register [wf_intros]:
  assumes wf: "wf_drr s" and fresh: "drr_streams s i = None"
  shows "wf_drr (register i p s)"
proof (cases "is_strict p")
  case True
  let ?e = "\<lparr>se_priority = p, se_deficit = 0, se_quantum = initial_quantum p, se_backlog = 0\<rparr>"
  let ?m = "(drr_streams s)(i \<mapsto> ?e)"
  have pi: "c2i_priority_of ?m i = p" by (simp add: c2i_priority_of_def)
  have other: "c2i_priority_of ?m j = c2i_priority_of (drr_streams s) j" if "j \<noteq> i" for j
    using that by (simp add: c2i_priority_of_def)
  have ni: "i \<notin> set (c2i_queue s)" "i \<notin> set (bulk_order s)" using wf fresh by (auto simp: wf_drr_def)
  have eq: "sorted_wrt (\<lambda>i j. c2i_priority_of ?m j \<le> c2i_priority_of ?m i) (c2i_queue s) =
        sorted_wrt (\<lambda>i j. c2i_priority_of (drr_streams s) j \<le> c2i_priority_of (drr_streams s) i) (c2i_queue s)"
    using ni(1) other by (intro iffI; elim sorted_wrt_mono_rel [rotated]) (metis order_refl)+
  have "sorted_wrt (\<lambda>i j. c2i_priority_of ?m j \<le> c2i_priority_of ?m i) (c2i_insert ?m p i (c2i_queue s))"
    using c2i.ins_descending [of ?m "c2i_queue s" i] wf eq pi by (simp add: c2i.descending_def wf_drr_def)
  moreover have "set (c2i_insert ?m p i (c2i_queue s)) = insert i (set (c2i_queue s))"
    "distinct (c2i_insert ?m p i (c2i_queue s))"
    using ni wf by (simp_all add: c2i_insert_def wf_drr_def)
  ultimately show ?thesis using wf True ni by (simp add: register_def Let_def wf_drr_def)
next
  case False
  let ?e = "\<lparr>se_priority = p, se_deficit = 0, se_quantum = initial_quantum p, se_backlog = 0\<rparr>"
  let ?m = "(drr_streams s)(i \<mapsto> ?e)"
  have ni: "i \<notin> set (c2i_queue s)" "i \<notin> set (bulk_order s)" using wf fresh by (auto simp: wf_drr_def)
  have "sorted_wrt (\<lambda>i j. c2i_priority_of ?m j \<le> c2i_priority_of ?m i) (c2i_queue s)"
    using wf ni(1) unfolding wf_drr_def
    by (elim conjE sorted_wrt_mono_rel [rotated]) (auto simp: c2i_priority_of_def)
  then have "wf_drr (s\<lparr>drr_streams := ?m, bulk_order := bulk_order s @ [i]\<rparr>)"
    using wf False ni by (auto simp: wf_drr_def)
  then show ?thesis using False by (simp add: register_def Let_def wf_drr_rebalance)
qed

lemma wf_drr_deregister [wf_intros]:
  assumes wf: "wf_drr s"
  shows "wf_drr (deregister i s)"
proof (cases "drr_streams s i")
  case None
  then show ?thesis using wf by (simp add: deregister_def)
next
  case (Some e)
  let ?m = "(drr_streams s)(i := None)"
  have sorted: "sorted_wrt (\<lambda>i j. c2i_priority_of ?m j \<le> c2i_priority_of ?m i) (filter (\<lambda>x. x \<noteq> i) (c2i_queue s))"
  proof -
    have "sorted_wrt (\<lambda>i j. c2i_priority_of (drr_streams s) j \<le> c2i_priority_of (drr_streams s) i)
        (filter (\<lambda>x. x \<noteq> i) (c2i_queue s))"
      using wf by (simp add: wf_drr_def sorted_wrt_filter)
    then show ?thesis by (elim sorted_wrt_mono_rel [rotated]) (auto simp: c2i_priority_of_def)
  qed
  show ?thesis
  proof (cases "is_strict (se_priority e)")
    case True
    then have "i \<notin> set (bulk_order s)" using wf Some by (auto simp: wf_drr_def)
    then show ?thesis using wf Some True sorted by (auto simp: deregister_def Let_def wf_drr_def)
  next
    case False
    then have "i \<notin> set (c2i_queue s)" using wf Some by (auto simp: wf_drr_def)
    then have "filter (\<lambda>x. x \<noteq> i) (c2i_queue s) = c2i_queue s" by (auto simp: filter_id_conv)
    with sorted \<open>i \<notin> set (c2i_queue s)\<close> have
      "wf_drr (s\<lparr>drr_streams := ?m, bulk_order := filter (\<lambda>x. x \<noteq> i) (bulk_order s)\<rparr>)"
      using wf by (auto simp: wf_drr_def)
    then show ?thesis using Some False by (simp add: deregister_def Let_def wf_drr_rebalance)
  qed
qed

lemma wf_drr_set_quantum [wf_intros]: "wf_drr s \<Longrightarrow> wf_drr (set_quantum i q s)"
  by (auto simp: set_quantum_def intro!: wf_drr_streams_cong split: option.split)

lemma wf_drr_set_backlog [wf_intros]: "wf_drr s \<Longrightarrow> wf_drr (set_backlog i b s)"
  by (auto simp: set_backlog_def intro!: wf_drr_streams_cong split: option.split)


section \<open>Budget accounting\<close>

definition alloc_total :: "allocs \<Rightarrow> nat" where
  "alloc_total as = sum_list (map snd as)"

definition alloc_of :: "allocs \<Rightarrow> uuid \<Rightarrow> nat" where
  "alloc_of as i = alloc_total (filter (\<lambda>a. fst a = i) as)"

lemma alloc_total_simps [simp]:
  "alloc_total [] = 0" "alloc_total (a # as) = snd a + alloc_total as"
  "alloc_total (as @ bs) = alloc_total as + alloc_total bs"
  by (simp_all add: alloc_total_def)

lemma alloc_of_simps [simp]:
  "alloc_of [] i = 0" "alloc_of (a # as) i = (if fst a = i then snd a else 0) + alloc_of as i"
  "alloc_of (as @ bs) i = alloc_of as i + alloc_of bs i"
  by (simp_all add: alloc_of_def)

lemma alloc_total_add [simp]: "alloc_total (alloc_add i n as) = alloc_total as + n"
  by (induction i n as rule: alloc_add.induct) auto

lemma alloc_of_add [simp]: "alloc_of (alloc_add i n as) j = alloc_of as j + (if i = j then n else 0)"
  by (induction i n as rule: alloc_add.induct) auto

lemma alloc_total_perm: "mset as = mset bs \<Longrightarrow> alloc_total as = alloc_total bs"
  unfolding alloc_total_def by (metis mset_map sum_mset_sum_list)

lemma alloc_of_perm: "mset as = mset bs \<Longrightarrow> alloc_of as i = alloc_of bs i"
  unfolding alloc_of_def by (rule alloc_total_perm) (metis mset_filter)

lemma schedule_c2i_total:
  "schedule_c2i m is budget res = Inr (res', budget') \<Longrightarrow>
     alloc_total res' + budget' = alloc_total res + budget"
  by (induction m "is" budget res rule: schedule_c2i.induct)
     (auto simp: Let_def split: if_splits option.splits)

lemma bulk_visit_total:
  "bulk_visit b = (err, send, b') \<Longrightarrow>
     alloc_total (bs_allocs b') + bs_budget b' = alloc_total (bs_allocs b) + bs_budget b"
  by (auto simp: bulk_visit_def bulk_turn_def Let_def split: list.splits option.splits if_splits)

text \<open>An invariant of the loop body is an invariant of both loops.\<close>

lemma phase1_inv:
  assumes step: "\<And>b send b'. P b \<Longrightarrow> 0 < bs_budget b \<Longrightarrow> bulk_visit b = (None, send, b') \<Longrightarrow> P b'"
  shows "P b \<Longrightarrow> phase1 k b = (None, b') \<Longrightarrow> P b'"
  by (induction k arbitrary: b) (auto split: if_splits prod.splits option.splits intro: step)

lemma phase2_inv:
  assumes step: "\<And>b send b'. P b \<Longrightarrow> 0 < bs_budget b \<Longrightarrow> bulk_visit b = (None, send, b') \<Longrightarrow> P b'"
  shows "P b \<Longrightarrow> phase2 n idle b = (None, b') \<Longrightarrow> P b'"
proof (induction n idle b rule: phase2.induct)
  case (1 n idle b)
  show ?case
  proof (cases "0 < bs_budget b \<and> idle < n")
    case True
    with "1.prems"(2) obtain send b1 where v: "bulk_visit b = (None, send, b1)"
      "phase2 n (if 0 < send then 0 else Suc idle) b1 = (None, b')"
      by (auto simp: phase2.simps [of n idle b] split: prod.splits option.splits)
    have "P b1" using step "1.prems"(1) True v(1) by blast
    then show ?thesis using "1.IH" [OF True v(1) [symmetric] refl refl] v(2) by simp
  next
    case False
    with "1.prems" show ?thesis by (auto simp: phase2.simps [of n idle b])
  qed
qed

lemma phase1_total:
  "phase1 k b = (None, b') \<Longrightarrow> alloc_total (bs_allocs b') + bs_budget b' = alloc_total (bs_allocs b) + bs_budget b"
  by (rule phase1_inv [where P = "\<lambda>x. alloc_total (bs_allocs x) + bs_budget x = alloc_total (bs_allocs b) + bs_budget b"])
     (auto dest: bulk_visit_total)

lemma phase2_total:
  "phase2 n idle b = (None, b') \<Longrightarrow> alloc_total (bs_allocs b') + bs_budget b' = alloc_total (bs_allocs b) + bs_budget b"
  by (rule phase2_inv [where P = "\<lambda>x. alloc_total (bs_allocs x) + bs_budget x = alloc_total (bs_allocs b) + bs_budget b"])
     (auto dest: bulk_visit_total)

section \<open>What scheduling preserves\<close>

lemma bulk_visit_static:
  "bulk_visit b = (None, send, b') \<Longrightarrow> static (bs_streams b') = static (bs_streams b)"
  by (auto simp: bulk_visit_def bulk_turn_def Let_def static_def fun_eq_iff
           split: list.splits option.splits if_splits)

lemma bulk_visit_order: "bulk_visit b = (None, send, b') \<Longrightarrow> bs_order b' = rotate1 (bs_order b)"
  by (auto simp: bulk_visit_def bulk_turn_def Let_def split: list.splits option.splits if_splits)

lemma bulk_visit_allocs:
  "bulk_visit b = (None, send, b') \<Longrightarrow>
     alloc_of (bs_allocs b) i \<le> alloc_of (bs_allocs b') i \<and>
     (i \<notin> set (bs_order b) \<longrightarrow> alloc_of (bs_allocs b') i = alloc_of (bs_allocs b) i)"
  by (auto simp: bulk_visit_def bulk_turn_def Let_def split: list.splits option.splits if_splits)

definition tracks :: "bulk_state \<Rightarrow> bulk_state \<Rightarrow> bool" where
  "tracks b0 b \<longleftrightarrow> static (bs_streams b) = static (bs_streams b0) \<and> set (bs_order b) = set (bs_order b0) \<and>
     distinct (bs_order b) = distinct (bs_order b0) \<and> length (bs_order b) = length (bs_order b0) \<and>
     (\<forall>i. alloc_of (bs_allocs b0) i \<le> alloc_of (bs_allocs b) i) \<and>
     (\<forall>i. i \<notin> set (bs_order b0) \<longrightarrow> alloc_of (bs_allocs b) i = alloc_of (bs_allocs b0) i)"

lemma tracks_refl [simp]: "tracks b b"
  by (simp add: tracks_def)

lemma tracks_trans: "tracks a b \<Longrightarrow> tracks b c \<Longrightarrow> tracks a c"
  unfolding tracks_def by (auto intro: order_trans)

lemma tracks_visit: "bulk_visit b = (None, send, b') \<Longrightarrow> tracks b b'"
  using bulk_visit_static bulk_visit_order bulk_visit_allocs by (fastforce simp: tracks_def)

lemma tracks_phase1: "phase1 k b = (None, b') \<Longrightarrow> tracks b b'"
  by (rule phase1_inv [where P = "tracks b"]) (auto intro: tracks_trans tracks_visit)

lemma tracks_phase2: "phase2 n idle b = (None, b') \<Longrightarrow> tracks b b'"
  by (rule phase2_inv [where P = "tracks b"]) (auto intro: tracks_trans tracks_visit)

lemma bulk_visit_ok: "\<forall>i \<in> set (bs_order b). bs_streams b i \<noteq> None \<Longrightarrow> fst (bulk_visit b) = None"
  by (auto simp: bulk_visit_def Let_def split: list.splits option.splits prod.splits)

lemma static_None: "static m' = static m \<Longrightarrow> m' i = None \<longleftrightarrow> m i = None"
  unfolding static_def by (metis map_option_is_None)

lemma tracks_ok:
  "tracks b b' \<Longrightarrow> \<forall>i \<in> set (bs_order b). bs_streams b i \<noteq> None \<Longrightarrow> \<forall>i \<in> set (bs_order b'). bs_streams b' i \<noteq> None"
  unfolding tracks_def using static_None by metis

lemma phase1_ok: "\<forall>i \<in> set (bs_order b). bs_streams b i \<noteq> None \<Longrightarrow> \<exists>b'. phase1 k b = (None, b')"
proof (induction k arbitrary: b)
  case 0
  then show ?case by simp
next
  case (Suc k)
  from bulk_visit_ok [OF Suc.prems] obtain send b1 where v: "bulk_visit b = (None, send, b1)"
    by (cases "bulk_visit b") auto
  then have "\<forall>i \<in> set (bs_order b1). bs_streams b1 i \<noteq> None" using tracks_visit tracks_ok Suc.prems by blast
  then show ?case using Suc.IH v by simp
qed

lemma phase2_ok: "\<forall>i \<in> set (bs_order b). bs_streams b i \<noteq> None \<Longrightarrow> \<exists>b'. phase2 n idle b = (None, b')"
proof (induction n idle b rule: phase2.induct)
  case (1 n idle b)
  from bulk_visit_ok [OF "1.prems"] obtain send b1 where v: "bulk_visit b = (None, send, b1)"
    by (cases "bulk_visit b") auto
  then have ok: "\<forall>i \<in> set (bs_order b1). bs_streams b1 i \<noteq> None" using tracks_visit tracks_ok "1.prems" by blast
  show ?case
  proof (cases "0 < bs_budget b \<and> idle < n")
    case True
    then show ?thesis using "1.IH" [OF True v [symmetric] refl refl ok] v by (simp add: phase2.simps [of n idle b])
  next
    case False
    then show ?thesis by (auto simp: phase2.simps [of n idle b])
  qed
qed

lemma schedule_c2i_ok:
  "\<forall>i \<in> set is. m i \<noteq> None \<Longrightarrow> \<exists>res' budget'. schedule_c2i m is budget res = Inr (res', budget')"
  by (induction m "is" budget res rule: schedule_c2i.induct) (auto simp: Let_def)


section \<open>The strict queue as greedy filling\<close>

text \<open>The reference for \<open>schedule_c2i\<close>: in queue order every stream takes what it may, as long as
  the budget lasts; empty grants are not reported.\<close>

definition c2i_cap :: "(uuid \<rightharpoonup> stream_entry) \<Rightarrow> uuid \<Rightarrow> nat" where
  "c2i_cap m i = (case m i of None \<Rightarrow> 0 | Some e \<Rightarrow> min (se_backlog e) (se_quantum e))"

fun greedy_fill :: "(uuid \<Rightarrow> nat) \<Rightarrow> uuid list \<Rightarrow> nat \<Rightarrow> allocs" where
  "greedy_fill cap [] budget = []"
| "greedy_fill cap (i # is) budget =
     (i, min budget (cap i)) # greedy_fill cap is (budget - min budget (cap i))"

definition c2i_reference :: "(uuid \<rightharpoonup> stream_entry) \<Rightarrow> uuid list \<Rightarrow> nat \<Rightarrow> allocs" where
  "c2i_reference m is budget = filter (\<lambda>a. 0 < snd a) (greedy_fill (c2i_cap m) is budget)"

lemma greedy_fill_zero: "filter (\<lambda>a. 0 < snd a) (greedy_fill cap is 0) = []"
  by (induction "is") auto

lemma alloc_total_filter_pos [simp]: "alloc_total (filter (\<lambda>a. 0 < snd a) as) = alloc_total as"
  by (induction as) auto

lemma alloc_of_filter_pos [simp]: "alloc_of (filter (\<lambda>a. 0 < snd a) as) i = alloc_of as i"
  by (induction as) auto

lemma greedy_fill_total: "alloc_total (greedy_fill cap is budget) = min budget (sum_list (map cap is))"
  by (induction "is" arbitrary: budget) auto

lemma schedule_c2i_reference:
  "\<forall>i \<in> set is. m i \<noteq> None \<Longrightarrow>
     schedule_c2i m is budget res =
       Inr (res @ c2i_reference m is budget, budget - min budget (sum_list (map (c2i_cap m) is)))"
proof (induction m "is" budget res rule: schedule_c2i.induct)
  case (1 m budget res)
  then show ?case by (simp add: c2i_reference_def)
next
  case (2 m i "is" budget res)
  then obtain e where e: "m i = Some e" by auto
  show ?case
  proof (cases "budget = 0")
    case True
    then show ?thesis by (simp add: c2i_reference_def greedy_fill_zero)
  next
    case False
    have cap: "min (min budget (se_backlog e)) (se_quantum e) = min budget (c2i_cap m i)"
      using e by (simp add: c2i_cap_def min.assoc)
    show ?thesis
    proof (cases "0 < min budget (c2i_cap m i)")
      case True
      have IH: "schedule_c2i m is (budget - min budget (c2i_cap m i)) (res @ [(i, min budget (c2i_cap m i))]) =
          Inr ((res @ [(i, min budget (c2i_cap m i))]) @ c2i_reference m is (budget - min budget (c2i_cap m i)),
            budget - min budget (c2i_cap m i) -
              min (budget - min budget (c2i_cap m i)) (sum_list (map (c2i_cap m) is)))"
        using "2.IH"(1) [OF False e refl] "2.prems" True unfolding cap by simp
      have "k + min (budget - k) r = min budget (k + r)" if "k \<le> budget" for k r
        using that by linarith
      then have "min budget (c2i_cap m i) + min (budget - min budget (c2i_cap m i)) (sum_list (map (c2i_cap m) is)) =
          min budget (c2i_cap m i + sum_list (map (c2i_cap m) is))" by linarith
      then show ?thesis using True e False cap by (simp add: Let_def IH) (simp add: c2i_reference_def)
    next
      case zero: False
      have IH: "schedule_c2i m is budget res =
          Inr (res @ c2i_reference m is budget, budget - min budget (sum_list (map (c2i_cap m) is)))"
        using "2.IH"(2) [OF False e refl] "2.prems" zero unfolding cap by simp
      have "c2i_cap m i = 0" using zero False by simp
      then show ?thesis using e False cap by (simp add: Let_def IH) (simp add: c2i_reference_def)
    qed
  qed
qed

lemma greedy_fill_full:
  "sum_list (map cap is) \<le> budget \<Longrightarrow> distinct is \<Longrightarrow> i \<in> set is \<Longrightarrow> alloc_of (greedy_fill cap is budget) i = cap i"
proof (induction "is" arbitrary: budget)
  case Nil
  then show ?case by simp
next
  case (Cons j js)
  have none: "alloc_of (greedy_fill cap ks b) k = 0" if "k \<notin> set ks" for ks b k
    using that by (induction ks arbitrary: b) auto
  from Cons show ?case by (cases "i = j") (auto simp: none)
qed

section \<open>The shape of a schedule\<close>

definition bulk_start :: "drr_scheduler \<Rightarrow> nat \<Rightarrow> bulk_state" where
  "bulk_start s budget = \<lparr>bs_streams = drr_streams s, bs_order = bulk_order s, bs_allocs = [], bs_budget = budget\<rparr>"

definition c2i_demand :: "drr_scheduler \<Rightarrow> nat" where
  "c2i_demand s = sum_list (map (c2i_cap (drr_streams s)) (c2i_queue s))"

text \<open>On a well-formed scheduler a schedule never fails, and it is one of two shapes.\<close>

lemma schedule_shape:
  assumes wf: "wf_drr s"
  obtains (strict_only) "bulk_order s = [] \<or> budget \<le> c2i_demand s"
      "schedule rank budget s = (Inr (c2i_reference (drr_streams s) (c2i_queue s) budget), s)"
  | (with_bulk) b1 b2 where "bulk_order s \<noteq> []" "c2i_demand s < budget"
      "phase1 (length (bulk_order s)) (bulk_start s (budget - c2i_demand s)) = (None, b1)"
      "phase2 (length (bulk_order s)) 0 b1 = (None, b2)"
      "schedule rank budget s =
         (Inr (c2i_reference (drr_streams s) (c2i_queue s) budget @ hash_order rank (bs_allocs b2)),
          s\<lparr>drr_streams := bs_streams b2, bulk_order := bs_order b2\<rparr>)"
proof -
  have c: "\<forall>i \<in> set (c2i_queue s). drr_streams s i \<noteq> None" using wf by (auto simp: wf_drr_def)
  note c2i = schedule_c2i_reference [OF c, of budget "[]", folded c2i_demand_def]
  show ?thesis
  proof (cases "bulk_order s = [] \<or> budget \<le> c2i_demand s")
    case True
    then show ?thesis using c2i by (intro strict_only) (auto simp: schedule_def Let_def)
  next
    case False
    then have bud: "budget - min budget (c2i_demand s) = budget - c2i_demand s" "0 < budget - c2i_demand s" by auto
    let ?b = "bulk_start s (budget - c2i_demand s)"
    have ok: "\<forall>i \<in> set (bs_order ?b). bs_streams ?b i \<noteq> None"
      using wf by (auto simp: wf_drr_def bulk_start_def)
    obtain b1 where p1: "phase1 (length (bulk_order s)) ?b = (None, b1)" using phase1_ok [OF ok] by blast
    obtain b2 where p2: "phase2 (length (bulk_order s)) 0 b1 = (None, b2)"
      using phase2_ok [OF tracks_ok [OF tracks_phase1 [OF p1] ok]] by blast
    show ?thesis using False c2i bud p1 p2
      by (intro with_bulk) (auto simp: schedule_def Let_def bulk_start_def)
  qed
qed

lemma tracks_bulk_start:
  assumes "phase1 n (bulk_start s budget) = (None, b1)" "phase2 n' k b1 = (None, b2)"
  shows "tracks (bulk_start s budget) b2"
  using assms tracks_phase1 tracks_phase2 tracks_trans by blast

lemma wf_drr_schedule [wf_intros]:
  assumes wf: "wf_drr s"
  shows "wf_drr (snd (schedule rank budget s))"
  using wf
proof (rule schedule_shape [where rank = rank and budget = budget])
  fix b1 b2
  assume p: "phase1 (length (bulk_order s)) (bulk_start s (budget - c2i_demand s)) = (None, b1)"
    "phase2 (length (bulk_order s)) 0 b1 = (None, b2)"
    and r: "schedule rank budget s =
         (Inr (c2i_reference (drr_streams s) (c2i_queue s) budget @ hash_order rank (bs_allocs b2)),
          s\<lparr>drr_streams := bs_streams b2, bulk_order := bs_order b2\<rparr>)"
  have "static (bs_streams b2) = static (drr_streams s)" "set (bs_order b2) = set (bulk_order s)" "distinct (bs_order b2)"
    using tracks_bulk_start [OF p] wf by (auto simp: tracks_def bulk_start_def wf_drr_def)
  then have "wf_drr (s\<lparr>drr_streams := bs_streams b2, bulk_order := bs_order b2\<rparr>)"
    using wf by (intro wf_drr_cong static_priority) auto
  then show ?thesis by (simp add: r)
qed (use wf in auto)


lemma mset_hash_order [simp]: "mset (hash_order rank as) = mset as"
  by (simp add: hash_order_def)

lemma alloc_total_hash_order [simp]: "alloc_total (hash_order rank as) = alloc_total as"
  by (rule alloc_total_perm) simp

lemma alloc_of_hash_order [simp]: "alloc_of (hash_order rank as) i = alloc_of as i"
  by (rule alloc_of_perm) simp

lemma c2i_reference_total: "alloc_total (c2i_reference (drr_streams s) (c2i_queue s) budget) = min budget (c2i_demand s)"
  by (simp add: c2i_reference_def greedy_fill_total c2i_demand_def)

lemma c2i_reference_full:
  "wf_drr s \<Longrightarrow> c2i_demand s \<le> budget \<Longrightarrow> i \<in> set (c2i_queue s) \<Longrightarrow>
     alloc_of (c2i_reference (drr_streams s) (c2i_queue s) budget) i = c2i_cap (drr_streams s) i"
  by (simp add: c2i_reference_def greedy_fill_full c2i_demand_def wf_drr_def)

lemma schedule_total:
  assumes "wf_drr s" and "schedule rank budget s = (Inr as, s')"
  shows "alloc_total as \<le> budget"
  using assms(1)
proof (rule schedule_shape [where rank = rank and budget = budget])
  fix b1 b2
  assume "phase1 (length (bulk_order s)) (bulk_start s (budget - c2i_demand s)) = (None, b1)"
    "phase2 (length (bulk_order s)) 0 b1 = (None, b2)" "c2i_demand s < budget"
    and r: "schedule rank budget s =
         (Inr (c2i_reference (drr_streams s) (c2i_queue s) budget @ hash_order rank (bs_allocs b2)),
          s\<lparr>drr_streams := bs_streams b2, bulk_order := bs_order b2\<rparr>)"
  then show ?thesis using assms(2) by (auto simp: c2i_reference_total bulk_start_def dest!: phase1_total phase2_total)
qed (use assms(2) in \<open>auto simp: c2i_reference_total\<close>)

section \<open>Work conservation\<close>

definition quiet :: "(uuid \<rightharpoonup> stream_entry) \<Rightarrow> uuid \<Rightarrow> bool" where
  "quiet m i \<longleftrightarrow> (case m i of None \<Rightarrow> False | Some e \<Rightarrow> se_backlog e = 0 \<or> se_quantum e = 0)"

definition no_wrap :: "bulk_state \<Rightarrow> bool" where
  "no_wrap b \<longleftrightarrow> (\<forall>i \<in> set (bs_order b). case bs_streams b i of None \<Rightarrow> True
     | Some e \<Rightarrow> se_deficit e + se_quantum e * (bs_budget b + 1) \<le> u32_max)"

lemma quiet_static:
  assumes "static m' = static m"
  shows "quiet m' i = quiet m i"
proof (cases "m i")
  case None
  then have "m' i = None" using static_None [OF assms] by blast
  with None show ?thesis by (simp add: quiet_def)
next
  case (Some e)
  then obtain e' where "m' i = Some e'" "se_quantum e' = se_quantum e" "se_backlog e' = se_backlog e"
    using assms by (elim static_Some)
  with Some show ?thesis by (simp add: quiet_def)
qed

lemma bulk_turn_no_wrap:
  assumes "se_deficit e + se_quantum e * (budget + 1) \<le> u32_max" and "bulk_turn e budget = (e', send)"
  shows "se_deficit e' + se_quantum e' * (budget - send + 1) \<le> u32_max"
proof -
  have d: "add_u32 (se_deficit e) (se_quantum e) = se_deficit e + se_quantum e" using assms(1) by simp
  show ?thesis
  proof (cases "send = 0")
    case True
    with assms show ?thesis by (auto simp: bulk_turn_def Let_def d split: if_splits)
  next
    case False
    with assms(2) have e': "e' = e\<lparr>se_deficit := se_deficit e + se_quantum e - send\<rparr>" and "send \<le> budget"
      by (auto simp: bulk_turn_def Let_def d split: if_splits)
    with False have "budget - send + 1 \<le> budget" by linarith
    then have "se_quantum e * (budget - send + 1) \<le> se_quantum e * budget" by (rule mult_le_mono2)
    with e' assms(1) show ?thesis by (simp add: algebra_simps)
  qed
qed

lemma no_wrap_visit:
  assumes nw: "no_wrap b" and v: "bulk_visit b = (None, send, b')"
  shows "no_wrap b'"
proof (cases "bs_order b")
  case Nil
  with v nw show ?thesis by (auto simp: bulk_visit_def)
next
  case (Cons i "is")
  with v obtain e e' where e: "bs_streams b i = Some e" "bulk_turn e (bs_budget b) = (e', send)"
    and b': "bs_streams b' = (bs_streams b)(i \<mapsto> e')" "bs_order b' = is @ [i]" "bs_budget b' = bs_budget b - send"
    by (auto simp: bulk_visit_def Let_def split: option.splits prod.splits)
  have "se_deficit f + se_quantum f * (bs_budget b - send + 1) \<le> u32_max"
    if "j \<in> set is" "bs_streams b j = Some f" for j f
  proof -
    have "se_quantum f * (bs_budget b - send + 1) \<le> se_quantum f * (bs_budget b + 1)" by (rule mult_le_mono2) simp
    moreover have "se_deficit f + se_quantum f * (bs_budget b + 1) \<le> u32_max"
      using nw that Cons by (auto simp: no_wrap_def dest!: bspec [where x = j])
    ultimately show ?thesis by linarith
  qed
  moreover have "se_deficit e' + se_quantum e' * (bs_budget b - send + 1) \<le> u32_max"
    using nw e Cons by (intro bulk_turn_no_wrap) (auto simp: no_wrap_def)
  ultimately show ?thesis using b' by (auto simp: no_wrap_def split: option.splits)
qed

lemma idle_visit_quiet:
  assumes "no_wrap b" "0 < bs_budget b" "bulk_visit b = (None, 0, b')" "bs_order b = i # is"
  shows "quiet (bs_streams b) i"
proof -
  from assms(3,4) obtain e e' where e: "bs_streams b i = Some e" "bulk_turn e (bs_budget b) = (e', 0)"
    by (auto simp: bulk_visit_def Let_def split: option.splits prod.splits)
  have "add_u32 (se_deficit e) (se_quantum e) = se_deficit e + se_quantum e"
    using assms(1,4) e(1) by (intro add_u32_exact) (auto simp: no_wrap_def)
  with e(2) assms(2) have "se_backlog e = 0 \<or> se_quantum e = 0"
    by (auto simp: bulk_turn_def Let_def split: if_splits)
  with e(1) show ?thesis by (simp add: quiet_def)
qed

lemma phase2_conserving:
  "no_wrap b \<Longrightarrow> length (bs_order b) = n \<Longrightarrow> idle \<le> n \<Longrightarrow>
     \<forall>i \<in> set (drop (n - idle) (bs_order b)). quiet (bs_streams b) i \<Longrightarrow> phase2 n idle b = (None, b') \<Longrightarrow>
     bs_budget b' = 0 \<or> (\<forall>i \<in> set (bs_order b'). quiet (bs_streams b') i)"
proof (induction n idle b rule: phase2.induct)
  case (1 n idle b)
  show ?case
  proof (cases "0 < bs_budget b \<and> idle < n")
    case False
    with "1.prems" show ?thesis by (auto simp: phase2.simps [of n idle b])
  next
    case True
    with "1.prems"(5) obtain send b1 where v: "bulk_visit b = (None, send, b1)"
      "phase2 n (if 0 < send then 0 else Suc idle) b1 = (None, b')"
      by (auto simp: phase2.simps [of n idle b] split: prod.splits option.splits)
    from True "1.prems"(2) obtain i "is" where o: "bs_order b = i # is" by (cases "bs_order b") auto
    have st: "static (bs_streams b1) = static (bs_streams b)" and o1: "bs_order b1 = is @ [i]"
      using bulk_visit_static [OF v(1)] bulk_visit_order [OF v(1)] o by auto
    have "\<forall>j \<in> set (drop (n - (if 0 < send then 0 else Suc idle)) (bs_order b1)). quiet (bs_streams b1) j"
    proof (cases "0 < send")
      case True
      then show ?thesis using o1 o "1.prems"(2) by simp
    next
      case idle: False
      have "drop (n - Suc idle) is = drop (n - idle) (bs_order b)" using o True by (simp add: drop_Cons' Suc_diff_Suc)
      then have "drop (n - Suc idle) (bs_order b1) = drop (n - idle) (bs_order b) @ [i]"
        using o1 o "1.prems"(2) True by simp
      moreover have "quiet (bs_streams b) i" using idle_visit_quiet "1.prems"(1) True v(1) o idle by simp
      ultimately show ?thesis using "1.prems"(4) idle quiet_static [OF st] by auto
    qed
    then show ?thesis
      using "1.IH" [OF True v(1) [symmetric] refl refl no_wrap_visit [OF "1.prems"(1) v(1)]] v(2) o o1 "1.prems"(2) True
      by (auto split: if_splits)
  qed
qed


section \<open>The mandatory fair round\<close>

definition turn_size :: "(uuid \<rightharpoonup> stream_entry) \<Rightarrow> uuid \<Rightarrow> nat" where
  "turn_size m i = (case m i of None \<Rightarrow> 0 | Some e \<Rightarrow> se_deficit e + se_quantum e)"

definition turn_grant :: "(uuid \<rightharpoonup> stream_entry) \<Rightarrow> uuid \<Rightarrow> nat" where
  "turn_grant m i = (case m i of None \<Rightarrow> 0 | Some e \<Rightarrow> min (se_deficit e + se_quantum e) (se_backlog e))"

lemma turn_grant_le: "turn_grant m i \<le> turn_size m i"
  by (simp add: turn_grant_def turn_size_def split: option.split)

lemma fair_visit:
  assumes "bs_order b = i # is" "bs_streams b i = Some e" "turn_size (bs_streams b) i \<le> u32_max"
    "turn_size (bs_streams b) i \<le> bs_budget b" "bulk_visit b = (None, send, b')"
  shows "send = turn_grant (bs_streams b) i"
    "alloc_of (bs_allocs b') j = alloc_of (bs_allocs b) j + (if j = i then turn_grant (bs_streams b) i else 0)"
    "\<And>j. j \<noteq> i \<Longrightarrow> bs_streams b' j = bs_streams b j"
  using assms
  by (auto simp: bulk_visit_def bulk_turn_def turn_size_def turn_grant_def Let_def min_def split: if_splits)

lemma phase1_fair:
  assumes "bs_order b = xs @ ys" "distinct (xs @ ys)" "\<forall>i \<in> set xs. bs_streams b i \<noteq> None"
    "\<forall>i \<in> set xs. turn_size (bs_streams b) i \<le> u32_max" "sum_list (map (turn_size (bs_streams b)) xs) \<le> bs_budget b"
    "phase1 (length xs) b = (None, b')"
  shows "alloc_of (bs_allocs b') j = alloc_of (bs_allocs b) j + (if j \<in> set xs then turn_grant (bs_streams b) j else 0)"
  using assms
proof (induction xs arbitrary: b ys)
  case Nil
  then show ?case by simp
next
  case (Cons i xs)
  show ?case
  proof (cases "bs_budget b = 0")
    case True
    with Cons.prems(5) have "turn_size (bs_streams b) k = 0" if "k \<in> set (i # xs)" for k
      using that by (auto simp: sum_list_eq_0_iff)
    then have "turn_grant (bs_streams b) k = 0" if "k \<in> set (i # xs)" for k
      using that turn_grant_le [of "bs_streams b" k] by simp
    with True Cons.prems(6) show ?thesis by auto
  next
    case False
    with Cons.prems(6) obtain send b1 where v: "bulk_visit b = (None, send, b1)" "phase1 (length xs) b1 = (None, b')"
      by (auto split: prod.splits option.splits)
    from Cons.prems(3) obtain e where e: "bs_streams b i = Some e" by auto
    have o: "bs_order b = i # (xs @ ys)" using Cons.prems(1) by simp
    note fv = fair_visit [OF o e _ _ v(1)]
    have i: "turn_size (bs_streams b) i \<le> u32_max" "turn_size (bs_streams b) i \<le> bs_budget b" using Cons.prems(4,5) by auto
    have same: "bs_streams b1 k = bs_streams b k" if "k \<in> set xs" for k
    proof (rule fv(3) [OF i])
      show "k \<noteq> i" using that Cons.prems(2) by auto
    qed
    have ts: "turn_size (bs_streams b1) k = turn_size (bs_streams b) k"
      "turn_grant (bs_streams b1) k = turn_grant (bs_streams b) k" if "k \<in> set xs" for k
      using same [OF that] by (auto simp: turn_size_def turn_grant_def)
    have bud: "bs_budget b1 = bs_budget b - turn_grant (bs_streams b) i"
      using bulk_visit_budget [OF v(1)] fv(1) [OF i] by simp
    have "sum_list (map (turn_size (bs_streams b1)) xs) = sum_list (map (turn_size (bs_streams b)) xs)"
      using ts by (auto cong: map_cong)
    then have sum: "sum_list (map (turn_size (bs_streams b1)) xs) \<le> bs_budget b1"
      using Cons.prems(5) bud turn_grant_le [of "bs_streams b" i] by simp
    have "alloc_of (bs_allocs b') j = alloc_of (bs_allocs b1) j + (if j \<in> set xs then turn_grant (bs_streams b1) j else 0)"
      using Cons.prems v(2) o bulk_visit_order [OF v(1)] same ts sum
      by (intro Cons.IH [where ys = "ys @ [i]"]) auto
    then show ?thesis using fv(2) [OF i, of j] ts Cons.prems(2) by auto
  qed
qed

lemma schedule_ok:
  assumes "wf_drr s"
  obtains as s' where "schedule rank budget s = (Inr as, s')" "wf_drr s'"
proof -
  obtain as where "fst (schedule rank budget s) = Inr as"
    by (rule schedule_shape [OF assms, of budget rank]) auto
  then show ?thesis using that wf_drr_schedule [OF assms, of rank budget]
    by (cases "schedule rank budget s") auto
qed

lemma schedule_conserves:
  assumes wf: "wf_drr s" and nw: "no_wrap (bulk_start s (budget - c2i_demand s))"
    and r: "schedule rank budget s = (Inr as, s')"
  shows "alloc_total as = budget \<or>
     (\<forall>i \<in> set (c2i_queue s). alloc_of as i = c2i_cap (drr_streams s) i) \<and>
     (\<forall>i \<in> set (bulk_order s). quiet (drr_streams s) i)"
  using wf
proof (rule schedule_shape [where rank = rank and budget = budget])
  assume "bulk_order s = [] \<or> budget \<le> c2i_demand s"
    "schedule rank budget s = (Inr (c2i_reference (drr_streams s) (c2i_queue s) budget), s)"
  then show ?thesis using r wf
    by (cases "budget \<le> c2i_demand s") (auto simp: c2i_reference_total c2i_reference_full)
next
  fix b1 b2
  let ?b = "bulk_start s (budget - c2i_demand s)" and ?n = "length (bulk_order s)"
  assume p: "phase1 ?n ?b = (None, b1)" "phase2 ?n 0 b1 = (None, b2)" and lt: "c2i_demand s < budget"
    and r': "schedule rank budget s =
         (Inr (c2i_reference (drr_streams s) (c2i_queue s) budget @ hash_order rank (bs_allocs b2)),
          s\<lparr>drr_streams := bs_streams b2, bulk_order := bs_order b2\<rparr>)"
  have nw1: "no_wrap b1" using phase1_inv [where P = no_wrap, OF _ nw p(1)] no_wrap_visit by blast
  have len: "length (bs_order b1) = ?n" using tracks_phase1 [OF p(1)] by (simp add: tracks_def bulk_start_def)
  note tr = tracks_bulk_start [OF p]
  have none: "alloc_of (bs_allocs b2) i = 0" if "i \<in> set (c2i_queue s)" for i
  proof -
    have "i \<notin> set (bulk_order s)" using that wf by (auto simp: wf_drr_def)
    then show ?thesis using tr by (auto simp: tracks_def bulk_start_def)
  qed
  have "bs_budget b2 = 0 \<or> (\<forall>i \<in> set (bs_order b2). quiet (bs_streams b2) i)"
    using phase2_conserving [OF nw1 len _ _ p(2)] len by simp
  then show ?thesis
  proof
    assume "bs_budget b2 = 0"
    then have "alloc_total as = budget" using r r' lt phase1_total [OF p(1)] phase2_total [OF p(2)]
      by (auto simp: c2i_reference_total bulk_start_def)
    then show ?thesis by blast
  next
    assume "\<forall>i \<in> set (bs_order b2). quiet (bs_streams b2) i"
    moreover have "static (bs_streams b2) = static (drr_streams s)" "set (bs_order b2) = set (bulk_order s)"
      using tr by (simp_all add: tracks_def bulk_start_def)
    ultimately have "\<forall>i \<in> set (bulk_order s). quiet (drr_streams s) i" using quiet_static by metis
    then show ?thesis using r r' lt none c2i_reference_full [OF wf] by auto
  qed
qed

section \<open>Properties\<close>

text \<open>C11 (invariant): from an empty scheduler, registering fresh streams, deregistering, updating
  quanta and backlogs, rebalancing and scheduling keep the scheduler well-formed: each queue holds
  exactly the registered streams of its class, once each, and the strict queue is sorted by
  descending priority. In particular a schedule on a well-formed scheduler never fails.\<close>

theorem drr_invariant:
  "wf_drr drr_new \<and>
   (wf_drr s \<longrightarrow>
     (drr_streams s i = None \<longrightarrow> wf_drr (register i p s)) \<and> wf_drr (deregister i s) \<and>
     wf_drr (set_quantum i q s) \<and> wf_drr (set_backlog i k s) \<and> wf_drr (rebalance s) \<and>
     (\<exists>as s'. schedule rank budget s = (Inr as, s') \<and> wf_drr s'))"
proof -
  have "\<exists>as s'. schedule rank budget s = (Inr as, s') \<and> wf_drr s'" if "wf_drr s"
    using schedule_ok [OF that] by metis
  then show ?thesis by (auto intro: wf_intros)
qed

definition demo_drr :: drr_scheduler where
  "demo_drr = set_backlog 3 5000 (set_backlog 2 9000 (set_backlog 1 1024
     (register 3 bulk_priority_min (register 2 bulk_priority_min (register 1 c2i_priority_min drr_new)))))"

lemma demo_drr_eval:
  "demo_drr = \<lparr>drr_streams =
     [1 \<mapsto> \<lparr>se_priority = c2i_priority_min, se_deficit = 0, se_quantum = 65536, se_backlog = 1024\<rparr>,
      2 \<mapsto> \<lparr>se_priority = bulk_priority_min, se_deficit = 0, se_quantum = 4096, se_backlog = 9000\<rparr>,
      3 \<mapsto> \<lparr>se_priority = bulk_priority_min, se_deficit = 0, se_quantum = 4096, se_backlog = 5000\<rparr>],
     bulk_order = [2, 3], c2i_queue = [1]\<rparr>"
  by (auto simp: demo_drr_def register_def drr_new_def Let_def rebalance_def c2i_insert_def vec_insert_def
      set_backlog_def initial_quantum_def BULK_QUANTUM_BYTES_def)

lemma wf_demo_drr: "wf_drr demo_drr"
  unfolding demo_drr_def
  by (intro wf_intros) (simp_all add: register_def drr_new_def Let_def rebalance_def)

theorem drr_invariant_witness:
  "wf_drr demo_drr \<and> drr_streams demo_drr 4 = None \<and> wf_drr (register 4 c2i_priority_min demo_drr) \<and>
   (\<exists>as s'. schedule id 8192 demo_drr = (Inr as, s') \<and> wf_drr s')"
proof -
  have "drr_streams demo_drr 4 = None" by (simp add: demo_drr_eval)
  then show ?thesis
    using drr_invariant [of demo_drr 4 c2i_priority_min 0 0 id 8192] wf_demo_drr by blast
qed

text \<open>C6 (equivalence): a schedule is the greedy filling of the strict queue in priority order,
  followed by the bulk allocations; a bulk stream is given bytes only when every strict stream got
  all it may send, and the bytes given never exceed the budget.\<close>

theorem schedule_strict_first:
  assumes "wf_drr s" and "schedule rank budget s = (Inr as, s')"
  shows "(\<exists>bs. as = c2i_reference (drr_streams s) (c2i_queue s) budget @ bs \<and>
            (bs \<noteq> [] \<longrightarrow> (\<forall>i \<in> set (c2i_queue s). alloc_of as i = c2i_cap (drr_streams s) i))) \<and>
         alloc_total as \<le> budget"
proof -
  have "\<exists>bs. as = c2i_reference (drr_streams s) (c2i_queue s) budget @ bs \<and>
            (bs \<noteq> [] \<longrightarrow> (\<forall>i \<in> set (c2i_queue s). alloc_of as i = c2i_cap (drr_streams s) i))"
    using assms(1)
  proof (rule schedule_shape [where rank = rank and budget = budget])
    fix b1 b2
    assume p: "phase1 (length (bulk_order s)) (bulk_start s (budget - c2i_demand s)) = (None, b1)"
      "phase2 (length (bulk_order s)) 0 b1 = (None, b2)" and lt: "c2i_demand s < budget"
      and "schedule rank budget s =
         (Inr (c2i_reference (drr_streams s) (c2i_queue s) budget @ hash_order rank (bs_allocs b2)),
          s\<lparr>drr_streams := bs_streams b2, bulk_order := bs_order b2\<rparr>)"
    moreover have "alloc_of (bs_allocs b2) i = 0" if "i \<in> set (c2i_queue s)" for i
    proof -
      have "i \<notin> set (bulk_order s)" using that assms(1) by (auto simp: wf_drr_def)
      then show ?thesis using tracks_bulk_start [OF p] by (auto simp: tracks_def bulk_start_def)
    qed
    ultimately show ?thesis using assms c2i_reference_full [OF assms(1)] by (auto intro!: exI)
  qed (use assms(2) in \<open>auto intro!: exI [of _ "[]"]\<close>)
  then show ?thesis using schedule_total [OF assms] by blast
qed


theorem schedule_strict_first_witness:
  "wf_drr demo_drr \<and> (\<exists>as s'. schedule id 8192 demo_drr = (Inr as, s') \<and> alloc_total as \<le> 8192)"
proof -
  obtain as s' where r: "schedule id 8192 demo_drr = (Inr as, s')"
    by (rule schedule_ok [OF wf_demo_drr])
  then show ?thesis using schedule_strict_first [OF wf_demo_drr r] wf_demo_drr by blast
qed

text \<open>C20 (functional): scheduling is work conserving. Either the whole budget is handed out, or
  every strict stream got all it may send and no bulk stream that has a quantum has any data left.
  The hypothesis bounds the 32-bit deficits: none can reach the end of its range during this call.\<close>

theorem schedule_work_conserving:
  assumes wf: "wf_drr s" and nw: "no_wrap (bulk_start s (budget - c2i_demand s))"
    and r: "schedule rank budget s = (Inr as, s')"
  shows "alloc_total as = budget \<or>
     (\<forall>i \<in> set (c2i_queue s). alloc_of as i = c2i_cap (drr_streams s) i) \<and>
     (\<forall>i \<in> set (bulk_order s). quiet (drr_streams s) i)"
  using assms by (rule schedule_conserves)

theorem schedule_work_conserving_witness:
  "wf_drr demo_drr \<and> no_wrap (bulk_start demo_drr (8192 - c2i_demand demo_drr)) \<and>
   (\<exists>as s'. schedule id 8192 demo_drr = (Inr as, s') \<and> alloc_total as = 8192)"
proof -
  have nw: "no_wrap (bulk_start demo_drr (8192 - c2i_demand demo_drr))"
    by (simp add: no_wrap_def bulk_start_def demo_drr_eval c2i_demand_def c2i_cap_def u32_max_def)
  obtain as s' where r: "schedule id 8192 demo_drr = (Inr as, s')"
    by (rule schedule_ok [OF wf_demo_drr])
  have "\<not> quiet (drr_streams demo_drr) 2" "2 \<in> set (bulk_order demo_drr)" by (simp_all add: quiet_def demo_drr_eval)
  then show ?thesis using schedule_work_conserving [OF wf_demo_drr nw r] wf_demo_drr nw r by blast
qed

text \<open>C21 (functional): no bulk stream is skipped. When the budget covers the strict demand and one
  turn of every bulk stream, each bulk stream is given at least its turn: its deficit plus quantum,
  or its whole backlog if that is less.\<close>

theorem schedule_fair_round:
  assumes wf: "wf_drr s" and r: "schedule rank budget s = (Inr as, s')"
    and room: "c2i_demand s + sum_list (map (turn_size (drr_streams s)) (bulk_order s)) \<le> budget"
    and u32: "\<forall>i \<in> set (bulk_order s). turn_size (drr_streams s) i \<le> u32_max"
    and i: "i \<in> set (bulk_order s)"
  shows "turn_grant (drr_streams s) i \<le> alloc_of as i"
  using wf
proof (rule schedule_shape [where rank = rank and budget = budget])
  assume "bulk_order s = [] \<or> budget \<le> c2i_demand s"
  moreover from i have "bulk_order s \<noteq> []" by auto
  ultimately have "sum_list (map (turn_size (drr_streams s)) (bulk_order s)) = 0" using room by linarith
  with i have "turn_size (drr_streams s) i = 0" by (auto simp: sum_list_eq_0_iff)
  then show ?thesis using turn_grant_le [of "drr_streams s" i] by simp
next
  fix b1 b2
  let ?b = "bulk_start s (budget - c2i_demand s)" and ?n = "length (bulk_order s)"
  assume p: "phase1 ?n ?b = (None, b1)" "phase2 ?n 0 b1 = (None, b2)"
    and r': "schedule rank budget s =
         (Inr (c2i_reference (drr_streams s) (c2i_queue s) budget @ hash_order rank (bs_allocs b2)),
          s\<lparr>drr_streams := bs_streams b2, bulk_order := bs_order b2\<rparr>)"
  have "alloc_of (bs_allocs b1) i = alloc_of (bs_allocs ?b) i +
      (if i \<in> set (bulk_order s) then turn_grant (bs_streams ?b) i else 0)"
    using wf u32 room p(1)
    by (intro phase1_fair [where ys = "[]"]) (auto simp: bulk_start_def wf_drr_def)
  then have "turn_grant (drr_streams s) i = alloc_of (bs_allocs b1) i" using i by (simp add: bulk_start_def)
  also have "\<dots> \<le> alloc_of (bs_allocs b2) i" using tracks_phase2 [OF p(2)] by (simp add: tracks_def)
  finally show ?thesis using r r' by auto
qed

theorem schedule_fair_round_witness:
  "wf_drr demo_drr \<and> turn_grant (drr_streams demo_drr) 3 = 4096 \<and>
   (\<exists>as s'. schedule id 9216 demo_drr = (Inr as, s') \<and> 4096 \<le> alloc_of as 3)"
proof -
  obtain as s' where r: "schedule id 9216 demo_drr = (Inr as, s')"
    by (rule schedule_ok [OF wf_demo_drr])
  have g: "turn_grant (drr_streams demo_drr) 3 = 4096" by (simp add: turn_grant_def demo_drr_eval)
  have "turn_grant (drr_streams demo_drr) 3 \<le> alloc_of as 3"
    by (rule schedule_fair_round [OF wf_demo_drr r])
       (simp_all add: c2i_demand_def c2i_cap_def demo_drr_eval turn_size_def u32_max_def)
  then show ?thesis using wf_demo_drr r g by simp
qed


section \<open>Two limits of the scheduler\<close>

text \<open>\<open>schedule\<close> never lowers a stream's backlog, so a turn is offered again for the
  same bytes. A bulk stream that is alone in the scheduler and reports any data is given the whole
  budget, however small its backlog.\<close>

theorem schedule_exceeds_backlog:
  assumes wf: "wf_drr s" and alone: "bulk_order s = [i]" "c2i_queue s = []"
    and e: "drr_streams s i = Some e" "0 < se_backlog e" "0 < se_quantum e"
    and u32: "se_deficit e + se_quantum e * (budget + 1) \<le> u32_max"
    and r: "schedule rank budget s = (Inr as, s')"
  shows "alloc_total as = budget"
proof -
  have "c2i_demand s = 0" using alone by (simp add: c2i_demand_def)
  then have "no_wrap (bulk_start s (budget - c2i_demand s))" using u32 e alone by (simp add: no_wrap_def bulk_start_def)
  moreover have "\<not> quiet (drr_streams s) i" using e by (simp add: quiet_def)
  ultimately show ?thesis using schedule_conserves [OF wf _ r] alone by auto
qed

definition tiny_drr :: drr_scheduler where
  "tiny_drr = set_backlog 7 10 (register 7 bulk_priority_min drr_new)"

theorem schedule_exceeds_backlog_witness:
  "\<exists>as s'. schedule id 12500 tiny_drr = (Inr as, s') \<and> alloc_total as = 12500"
proof -
  have s: "tiny_drr = \<lparr>drr_streams = [7 \<mapsto> \<lparr>se_priority = bulk_priority_min, se_deficit = 0, se_quantum = 4096,
      se_backlog = 10\<rparr>], bulk_order = [7], c2i_queue = []\<rparr>"
    by (simp add: tiny_drr_def register_def drr_new_def Let_def rebalance_def set_backlog_def
        BULK_QUANTUM_BYTES_def)
  have wf: "wf_drr tiny_drr" unfolding tiny_drr_def by (intro wf_intros) (simp add: drr_new_def)
  obtain as s' where r: "schedule id 12500 tiny_drr = (Inr as, s')" by (rule schedule_ok [OF wf])
  have "alloc_total as = 12500"
    by (rule schedule_exceeds_backlog [OF wf, of 7 "\<lparr>se_priority = bulk_priority_min, se_deficit = 0, se_quantum = 4096, se_backlog = 10\<rparr>", OF _ _ _ _ _ _ r])
       (simp_all add: s u32_max_def)
  with r show ?thesis by blast
qed

lemma schedule_c2i_missing:
  assumes "\<forall>u \<in> set us. m u \<noteq> None" "m i = None" "sum_list (map (c2i_cap m) us) < budget"
  shows "schedule_c2i m (us @ i # vs) budget res = Inl (StreamNotFound i)"
  using assms
proof (induction us arbitrary: budget res)
  case Nil
  then show ?case by simp
next
  case (Cons u us)
  then obtain e where e: "m u = Some e" by auto
  then have "min budget (c2i_cap m u) = c2i_cap m u" "c2i_cap m u = min (se_backlog e) (se_quantum e)"
    using Cons.prems by (auto simp: c2i_cap_def)
  then have "min (min budget (se_backlog e)) (se_quantum e) = c2i_cap m u" by (simp add: min.assoc)
  then show ?case using Cons e by (auto simp: Let_def)
qed

lemma bulk_reregister_leaves_strict:
  assumes wf: "wf_drr s" and fresh: "drr_streams s i = None" and p: "is_strict p" "\<not> is_strict q"
  defines "s' \<equiv> deregister i (register i q (register i p s))"
  shows "c2i_queue s' = c2i_queue (register i p s)" "drr_streams s' i = None"
    "\<And>u. u \<in> set (c2i_queue s) \<Longrightarrow> drr_streams s' u = drr_streams s u"
proof -
  let ?m1 = "drr_streams (register i q (register i p s))"
  have m1: "\<exists>e. ?m1 i = Some e \<and> se_priority e = q"
    using p by (simp add: register_def Let_def rebalance_def set_quanta_lookup)
  then show "c2i_queue s' = c2i_queue (register i p s)"
    using p by (auto simp: s'_def deregister_def register_def Let_def rebalance_def)
  show "drr_streams s' i = None"
    using m1 p by (auto simp: s'_def deregister_def Let_def rebalance_def set_quanta_lookup)
  fix u assume u: "u \<in> set (c2i_queue s)"
  then have "u \<noteq> i" "u \<notin> set (bulk_order s)" using wf fresh by (auto simp: wf_drr_def)
  then show "drr_streams s' u = drr_streams s u"
    using m1 p by (auto simp: s'_def deregister_def register_def Let_def rebalance_def set_quanta_lookup)
qed



section \<open>The contract the rate limiter relies on\<close>

text \<open>
  A budget allocator knows a set of streams, is told their backlogs, and divides a budget among
  them. The contract: the division succeeds, names only known streams and hands out no more than
  the budget. One round of the rate limiter reports every backlog and then asks for a division.
\<close>

locale budget_allocator =
  fixes wf :: "'s \<Rightarrow> bool" and known :: "'s \<Rightarrow> uuid set"
    and offer :: "nat \<Rightarrow> 's \<Rightarrow> (quelay_error + allocs) \<times> 's"
    and report :: "uuid \<Rightarrow> nat \<Rightarrow> 's \<Rightarrow> 's" and remove :: "uuid \<Rightarrow> 's \<Rightarrow> 's"
  assumes offer_ok: "wf s \<Longrightarrow> \<exists>as s'. offer b s = (Inr as, s') \<and> wf s' \<and> known s' = known s \<and>
      fst ` set as \<subseteq> known s \<and> alloc_total as \<le> b"
    and report_ok: "wf s \<Longrightarrow> wf (report i k s) \<and> known (report i k s) = known s"
    and remove_ok: "wf s \<Longrightarrow> wf (remove i s) \<and> known (remove i s) = known s - {i}"
begin

lemma report_all: "wf s \<Longrightarrow> wf (foldl (\<lambda>s (i, k). report i k s) s bs) \<and> known (foldl (\<lambda>s (i, k). report i k s) s bs) = known s"
  by (induction bs arbitrary: s) (auto simp: report_ok)

lemma remove_all: "wf s \<Longrightarrow> wf (foldl (\<lambda>s i. remove i s) s is) \<and> known (foldl (\<lambda>s i. remove i s) s is) = known s - set is"
  by (induction "is" arbitrary: s) (auto simp: remove_ok)

lemma round_ok:
  assumes "wf s"
  obtains as s' where "offer b (foldl (\<lambda>s (i, k). report i k s) s bs) = (Inr as, s')" "wf s'" "known s' = known s"
    "fst ` set as \<subseteq> known s" "alloc_total as \<le> b"
  using report_all [OF assms, of bs] offer_ok [of "foldl (\<lambda>s (i, k). report i k s) s bs" b] by metis

end

lemma alloc_add_ids: "fst ` set (alloc_add i n as) = insert i (fst ` set as)"
  by (induction i n as rule: alloc_add.induct) auto

lemma bulk_visit_ids:
  assumes v: "bulk_visit b = (None, send, b')" and ids: "fst ` set (bs_allocs b) \<subseteq> set (bs_order b)"
  shows "fst ` set (bs_allocs b') \<subseteq> set (bs_order b')"
proof (cases "bs_order b")
  case Nil
  with v ids show ?thesis by (simp add: bulk_visit_def)
next
  case (Cons i js)
  with v have "bs_order b' = js @ [i]"
    "bs_allocs b' = (if 0 < send then alloc_add i send (bs_allocs b) else bs_allocs b)"
    by (auto simp: bulk_visit_def Let_def split: option.splits prod.splits)
  then have "fst ` set (bs_allocs b') \<subseteq> insert i (fst ` set (bs_allocs b))" "set (bs_order b') = set (bs_order b)"
    using Cons by (auto simp del: image_insert simp: alloc_add_ids)
  then show ?thesis using ids Cons by (metis insert_subset list.set_intros(1) order_trans)
qed

lemma bulk_allocs_known:
  assumes "phase1 n (bulk_start s budget) = (None, b1)" "phase2 n' k b1 = (None, b2)"
  shows "fst ` set (bs_allocs b2) \<subseteq> set (bulk_order s)"
proof -
  let ?P = "\<lambda>b. fst ` set (bs_allocs b) \<subseteq> set (bs_order b)"
  have "?P (bulk_start s budget)" by (simp add: bulk_start_def)
  then have "?P b1" by (rule phase1_inv [where P = ?P, OF _ _ assms(1), rotated]) (rule bulk_visit_ids)
  then have "?P b2" by (rule phase2_inv [where P = ?P, OF _ _ assms(2), rotated]) (rule bulk_visit_ids)
  then show ?thesis using tracks_bulk_start [OF assms] by (simp add: tracks_def bulk_start_def)
qed

lemma greedy_fill_ids: "fst ` set (greedy_fill cap is budget) = set is"
  by (induction "is" arbitrary: budget) auto

lemma schedule_known:
  assumes wf: "wf_drr s" and r: "schedule rank budget s = (Inr as, s')"
  shows "fst ` set as \<subseteq> dom (drr_streams s) \<and> dom (drr_streams s') = dom (drr_streams s)"
proof -
  have c2i: "fst ` set (c2i_reference (drr_streams s) (c2i_queue s) budget) \<subseteq> set (c2i_queue s)"
    unfolding greedy_fill_ids [of "c2i_cap (drr_streams s)" "c2i_queue s" budget, symmetric] c2i_reference_def
    by (intro image_mono filter_is_subset)
  have reg: "set (c2i_queue s) \<subseteq> dom (drr_streams s)" "set (bulk_order s) \<subseteq> dom (drr_streams s)"
    using wf by (auto simp: wf_drr_def)
  show ?thesis using wf
  proof (rule schedule_shape [where rank = rank and budget = budget])
    assume "schedule rank budget s = (Inr (c2i_reference (drr_streams s) (c2i_queue s) budget), s)"
    then show ?thesis using r c2i reg(1) by simp
  next
    fix b1 b2
    assume p: "phase1 (length (bulk_order s)) (bulk_start s (budget - c2i_demand s)) = (None, b1)"
      "phase2 (length (bulk_order s)) 0 b1 = (None, b2)"
      and r': "schedule rank budget s =
         (Inr (c2i_reference (drr_streams s) (c2i_queue s) budget @ hash_order rank (bs_allocs b2)),
          s\<lparr>drr_streams := bs_streams b2, bulk_order := bs_order b2\<rparr>)"
    have "static (bs_streams b2) = static (drr_streams s)"
      using tracks_bulk_start [OF p] by (simp add: tracks_def bulk_start_def)
    then have "bs_streams b2 i = None \<longleftrightarrow> drr_streams s i = None" for i by (rule static_None)
    then have "dom (bs_streams b2) = dom (drr_streams s)" unfolding dom_def by simp
    moreover have "fst ` set (hash_order rank (bs_allocs b2)) \<subseteq> set (bulk_order s)"
      using bulk_allocs_known [OF p] by (simp add: hash_order_def)
    moreover from r r' have "as = c2i_reference (drr_streams s) (c2i_queue s) budget @ hash_order rank (bs_allocs b2)"
      "drr_streams s' = bs_streams b2" by auto
    ultimately show ?thesis using c2i reg by (simp add: image_Un) (meson order_trans)
  qed
qed

interpretation drr: budget_allocator wf_drr "\<lambda>s. dom (drr_streams s)" "schedule rank" set_backlog deregister for rank
proof
  fix s i k b
  show "\<exists>as s'. schedule rank b s = (Inr as, s') \<and> wf_drr s' \<and> dom (drr_streams s') = dom (drr_streams s) \<and>
      fst ` set as \<subseteq> dom (drr_streams s) \<and> alloc_total as \<le> b" if "wf_drr s"
    using that by (metis schedule_known schedule_ok schedule_total)
  show "wf_drr (set_backlog i k s) \<and> dom (drr_streams (set_backlog i k s)) = dom (drr_streams s)" if "wf_drr s"
    using wf_drr_set_backlog [OF that] by (auto simp: set_backlog_def split: option.splits)
  show "wf_drr (deregister i s) \<and> dom (drr_streams (deregister i s)) = dom (drr_streams s) - {i}" if "wf_drr s"
    using wf_drr_deregister [OF that]
    by (auto simp: deregister_def Let_def rebalance_def set_quanta_lookup split: option.splits if_splits)
qed

end
