(* ===== verification/Rate_Limiter.thy ===== *)
theory Rate_Limiter
  imports Drr_Scheduler Framing
begin

text \<open>
  The aggregate rate limiter (quelay-agent/src/rate_limiter.rs): \<open>RateParams\<close>, the timer task
  \<open>AggregateTimerTask::run\<close> and \<open>AggregateRateLimiter\<close>.

  The state \<open>arl\<close> joins the fields of the limiter, which the source shares behind mutexes, with
  the timer task's own budget. A stream entry holds the depth-1 ticket channel to the pump
  (\<open>ae_ticket\<close> the queued ticket, \<open>ae_closed\<close> whether the pump dropped the receiver) and the two
  atomics. The map of streams is an association list in the order the \<open>HashMap\<close> happens to have;
  the list order plays no role beyond that. \<open>tick\<close> is one iteration of the loop, taken as one step:
  pumps and the session move between ticks. The session is the number of wire bytes it reports.
\<close>

section \<open>Timer parameters\<close>

definition CHUNKS_PER_TICK :: nat where "CHUNKS_PER_TICK = 8"
definition MIN_INTERVAL_MS :: nat where "MIN_INTERVAL_MS = 5"
definition MAX_INTERVAL_MS :: nat where "MAX_INTERVAL_MS = 100"

record rate_params =
  rp_interval :: nat
  rp_budget_bytes :: nat

text \<open>\<open>None\<close> is the division by zero of a rate below one byte per second.\<close>

definition from_rate_bps :: "nat \<Rightarrow> nat \<Rightarrow> rate_params option" where
  "from_rate_bps rate_bps chunk_size =
     (let rate_bytes_per_sec = rate_bps div 8;
          ideal_bytes_per_tick = mul_u64 CHUNKS_PER_TICK chunk_size
      in if rate_bytes_per_sec = 0 then None
         else let ideal_ms = mul_u64 ideal_bytes_per_tick 1000 div rate_bytes_per_sec;
                  interval_ms = clamp_u64 ideal_ms MIN_INTERVAL_MS MAX_INTERVAL_MS;
                  budget_bytes = mul_u64 rate_bytes_per_sec interval_ms div 1000
              in Some \<lparr>rp_interval = interval_ms, rp_budget_bytes = budget_bytes\<rparr>)"

section \<open>State\<close>

record arl_entry =
  ae_ticket :: "nat option"
  ae_closed :: bool
  ae_head_offset :: nat
  ae_q :: nat

record arl =
  arl_sched :: drr_scheduler
  arl_streams :: "(uuid \<times> arl_entry) list"
  arl_params :: "rate_params option"
  arl_session :: "nat option"
  arl_wire_baseline :: nat
  arl_available :: nat

definition arl_new :: "nat option \<Rightarrow> nat \<Rightarrow> arl option" where
  "arl_new rate_bps session =
     (let start = (\<lambda>params. \<lparr>arl_sched = drr_new, arl_streams = [], arl_params = params,
            arl_session = Some session, arl_wire_baseline = 0, arl_available = 0\<rparr>)
      in case rate_bps of
           None \<Rightarrow> Some (start None)
         | Some bps \<Rightarrow> (case from_rate_bps bps CHUNK_SIZE of None \<Rightarrow> None | Some p \<Rightarrow> Some (start (Some p))))"

definition arl_set_session :: "nat \<Rightarrow> arl \<Rightarrow> arl" where
  "arl_set_session new_session a =
     a\<lparr>arl_session := Some new_session, arl_wire_baseline := new_session\<rparr>"

definition wire_bytes_absolute :: "arl \<Rightarrow> nat" where
  "wire_bytes_absolute a = unwrap_or (arl_session a) 0"

definition map_remove :: "uuid \<Rightarrow> (uuid \<times> 'v) list \<Rightarrow> (uuid \<times> 'v) list" where
  "map_remove u m = filter (\<lambda>p. fst p \<noteq> u) m"

definition map_insert :: "uuid \<Rightarrow> 'v \<Rightarrow> (uuid \<times> 'v) list \<Rightarrow> (uuid \<times> 'v) list" where
  "map_insert u v m = (u, v) # map_remove u m"

definition arl_register :: "uuid \<Rightarrow> priority \<Rightarrow> arl \<Rightarrow> arl" where
  "arl_register u p a =
     (let a1 = a\<lparr>arl_sched := register u p (arl_sched a)\<rparr>
      in if arl_params a \<noteq> None
         then a1\<lparr>arl_streams := map_insert u
                \<lparr>ae_ticket = None, ae_closed = False, ae_head_offset = 0, ae_q = 0\<rparr> (arl_streams a1)\<rparr>
         else a1)"

definition arl_deregister :: "uuid \<Rightarrow> arl \<Rightarrow> arl" where
  "arl_deregister u a =
     a\<lparr>arl_sched := deregister u (arl_sched a), arl_streams := map_remove u (arl_streams a)\<rparr>"

section \<open>One tick\<close>

definition accumulate :: "nat \<Rightarrow> nat \<Rightarrow> nat" where
  "accumulate per_tick available_budget =
     (let max_carry = mul_u64 per_tick 2;
          b = saturating_add_u64 available_budget per_tick
      in if max_carry < b then max_carry else b)"

definition snapshot :: "(uuid \<times> arl_entry) list \<Rightarrow> (uuid \<times> nat) list" where
  "snapshot m = map (\<lambda>(u, e). (u, saturating_sub_u64 (ae_head_offset e) (ae_q e))) m"

definition set_backlogs :: "(uuid \<times> nat) list \<Rightarrow> drr_scheduler \<Rightarrow> drr_scheduler" where
  "set_backlogs snap s = foldl (\<lambda>s (u, b). set_backlog u b s) s snap"

text \<open>Step 3. \<open>deliver\<close> returns the streams with their channels, the bytes delivered and the
  streams found closed, in the order they were found.\<close>

record delivery =
  dl_streams :: "(uuid \<times> arl_entry) list"
  dl_delivered :: nat
  dl_closed :: "uuid list"

definition deliver_one :: "uuid \<times> nat \<Rightarrow> delivery \<Rightarrow> delivery" where
  "deliver_one alloc d =
     (let (u, bytes) = alloc in
      if bytes = 0 then d
      else case map_of (dl_streams d) u of
             None \<Rightarrow> d
           | Some e \<Rightarrow>
               if ae_closed e then d\<lparr>dl_closed := dl_closed d @ [u]\<rparr>
               else (case ae_ticket e of
                       Some _ \<Rightarrow> d
                     | None \<Rightarrow>
                         d\<lparr>dl_streams := map (\<lambda>p. if fst p = u then (u, e\<lparr>ae_ticket := Some bytes\<rparr>) else p) (dl_streams d),
                           dl_delivered := saturating_add_u64 (dl_delivered d) bytes\<rparr>))"

fun deliver :: "allocs \<Rightarrow> delivery \<Rightarrow> delivery" where
  "deliver [] d = d"
| "deliver (al # als) d = deliver als (deliver_one al d)"

text \<open>Step 4.\<close>

definition deduct :: "nat \<Rightarrow> nat \<Rightarrow> nat \<Rightarrow> nat" where
  "deduct available_budget delivered wire_delta =
     (let undelivered = saturating_sub_u64 available_budget delivered
      in saturating_add_u64 (saturating_sub_u64 available_budget wire_delta) undelivered)"

text \<open>Step 5.\<close>

definition clean_up :: "uuid list \<Rightarrow> arl \<Rightarrow> arl" where
  "clean_up closed a =
     a\<lparr>arl_streams := foldl (\<lambda>m u. map_remove u m) (arl_streams a) closed,
       arl_sched := foldl (\<lambda>s u. deregister u s) (arl_sched a) closed\<rparr>"

text \<open>The loop body. The result also has the bytes delivered, \<open>None\<close> when scheduling failed and
  the body is left with \<open>continue\<close>.\<close>

definition tick :: "(uuid \<Rightarrow> nat) \<Rightarrow> rate_params \<Rightarrow> arl \<Rightarrow> nat option \<times> arl" where
  "tick rank p a =
     (let budget = accumulate (rp_budget_bytes p) (arl_available a);
          sched = set_backlogs (snapshot (arl_streams a)) (arl_sched a)
      in case schedule rank budget sched of
           (Inl err, sched') \<Rightarrow> (None, a\<lparr>arl_available := budget, arl_sched := sched'\<rparr>)
         | (Inr allocs, sched') \<Rightarrow>
             let d = deliver allocs \<lparr>dl_streams = arl_streams a, dl_delivered = 0, dl_closed = []\<rparr>;
                 wire_now = unwrap_or (arl_session a) 0;
                 wire_delta = saturating_sub_u64 wire_now (arl_wire_baseline a);
                 a1 = a\<lparr>arl_sched := sched', arl_streams := dl_streams d, arl_wire_baseline := wire_now,
                        arl_available := deduct budget (dl_delivered d) wire_delta\<rparr>
             in (Some (dl_delivered d), if dl_closed d = [] then a1 else clean_up (dl_closed d) a1))"

section \<open>Lemmas\<close>

lemma map_fst_remove [simp]: "map fst (map_remove u m) = filter (\<lambda>x. x \<noteq> u) (map fst m)"
  by (induction m) (auto simp: map_remove_def)

lemma map_of_remove [simp]: "map_of (map_remove u m) v = (if v = u then None else map_of m v)"
  by (induction m) (auto simp: map_remove_def)

lemma map_of_insert [simp]: "map_of (map_insert u x m) v = (if v = u then Some x else map_of m v)"
  by (simp add: map_insert_def)

lemma foldl_map_remove:
  "map fst (foldl (\<lambda>m u. map_remove u m) m us) = filter (\<lambda>x. x \<notin> set us) (map fst m)"
  "map_of (foldl (\<lambda>m u. map_remove u m) m us) v = (if v \<in> set us then None else map_of m v)"
  by (induction us arbitrary: m) (auto simp: filter_filter cong: filter_cong)

lemma map_of_set_entry:
  "map_of (map (\<lambda>p. if fst p = u then (u, e) else p) m) v = (if v = u \<and> u \<in> fst ` set m then Some e else map_of m v)"
  by (induction m) (auto simp: rev_image_eqI)

lemma map_fst_set_entry [simp]: "map fst (map (\<lambda>p. if fst p = u then (u, e) else p) m) = map fst m"
  by (induction m) auto

lemma deliver_one_keys: "map fst (dl_streams (deliver_one al d)) = map fst (dl_streams d)"
  by (auto simp: deliver_one_def Let_def split: prod.splits option.splits)

lemma deliver_one_total: "dl_delivered (deliver_one al d) \<le> dl_delivered d + snd al"
  by (auto simp: deliver_one_def Let_def saturating_add_u64_def split: prod.splits option.splits)

lemma deliver_keys: "map fst (dl_streams (deliver als d)) = map fst (dl_streams d)"
  by (induction als d rule: deliver.induct) (simp_all add: deliver_one_keys)

lemma deliver_total: "dl_delivered (deliver als d) \<le> dl_delivered d + alloc_total als"
proof (induction als d rule: deliver.induct)
  case (2 al als d)
  then show ?case using deliver_one_total [of al d] by simp
qed simp

text \<open>What delivery does to one stream: its entry is untouched, or its empty open channel got a ticket.\<close>

definition served :: "allocs \<Rightarrow> uuid \<Rightarrow> arl_entry \<Rightarrow> arl_entry \<Rightarrow> bool" where
  "served als u e e' \<longleftrightarrow> e' = e \<or>
     ae_ticket e = None \<and> \<not> ae_closed e \<and> (\<exists>b. (u, b) \<in> set als \<and> 0 < b \<and> e' = e\<lparr>ae_ticket := Some b\<rparr>)"

lemma deliver_one_entry:
  "map_of (dl_streams d) u = Some e \<Longrightarrow>
     \<exists>e'. map_of (dl_streams (deliver_one al d)) u = Some e' \<and> served [al] u e e'"
  by (cases al; cases "map_of (dl_streams d) (fst al)"; cases "ae_ticket e")
     (auto simp: deliver_one_def map_of_set_entry served_def dest: map_of_SomeD split: if_splits option.splits)

lemma served_closed: "served als u e e' \<Longrightarrow> ae_closed e' = ae_closed e"
  by (auto simp: served_def)

lemma served_trans: "served [al] u e e' \<Longrightarrow> served als u e' e'' \<Longrightarrow> served (al # als) u e e''"
  by (auto simp: served_def)

lemma deliver_entry:
  "map_of (dl_streams d) u = Some e \<Longrightarrow>
     \<exists>e'. map_of (dl_streams (deliver als d)) u = Some e' \<and> served als u e e'"
proof (induction als d arbitrary: e rule: deliver.induct)
  case (1 d)
  then show ?case by (simp add: served_def)
next
  case (2 al als d)
  from deliver_one_entry [OF "2.prems", of al] obtain e' where
    e': "map_of (dl_streams (deliver_one al d)) u = Some e'" "served [al] u e e'" by blast
  from "2.IH" [OF e'(1)] obtain e'' where "map_of (dl_streams (deliver als (deliver_one al d))) u = Some e''" "served als u e' e''"
    by blast
  with e'(2) show ?case using served_trans by auto
qed

lemma map_of_keys: "map_of m u = None \<longleftrightarrow> u \<notin> set (map fst m)"
  by (simp add: map_of_eq_None_iff)

lemma deliver_one_closed_flag:
  "map_option ae_closed (map_of (dl_streams (deliver_one al d)) u) = map_option ae_closed (map_of (dl_streams d) u)"
proof (cases "map_of (dl_streams d) u")
  case None
  then have "map_of (dl_streams (deliver_one al d)) u = None" using deliver_one_keys [of al d] by (simp only: map_of_keys) simp
  then show ?thesis using None by simp
next
  case (Some e)
  then show ?thesis using deliver_one_entry [OF Some, of al] by (auto dest: served_closed)
qed

lemma deliver_one_closed:
  "set (dl_closed (deliver_one (u, b) d)) = set (dl_closed d) \<union>
     {v. v = u \<and> 0 < b \<and> map_option ae_closed (map_of (dl_streams d) u) = Some True}"
  by (auto simp: deliver_one_def split: option.splits)

lemma deliver_closed:
  "set (dl_closed (deliver als d)) = set (dl_closed d) \<union>
     {u. \<exists>b. (u, b) \<in> set als \<and> 0 < b \<and> map_option ae_closed (map_of (dl_streams d) u) = Some True}"
proof (induction als d rule: deliver.induct)
  case (2 al als d)
  obtain u b where "al = (u, b)" by fastforce
  then show ?case using 2 deliver_one_closed [of u b d] by (auto simp: deliver_one_closed_flag)
qed simp

section \<open>Invariant\<close>

definition wf_arl :: "arl \<Rightarrow> bool" where
  "wf_arl a \<longleftrightarrow> wf_drr (arl_sched a) \<and> distinct (map fst (arl_streams a)) \<and>
     (if arl_params a = None then arl_streams a = []
      else set (map fst (arl_streams a)) = dom (drr_streams (arl_sched a)))"

lemma dom_register: "dom (drr_streams (register u p s)) = insert u (dom (drr_streams s))"
  by (auto simp: register_def Let_def rebalance_def set_quanta_lookup split: if_splits option.splits)

lemma wf_arl_new [wf_intros]: "arl_new rate session = Some a \<Longrightarrow> wf_arl a"
  by (auto simp: arl_new_def wf_arl_def wf_drr_new Let_def split: option.splits) (simp_all add: drr_new_def)

lemma wf_arl_register [wf_intros]:
  assumes "wf_arl a" "drr_streams (arl_sched a) u = None"
  shows "wf_arl (arl_register u p a)"
  using assms wf_drr_register [of "arl_sched a" u p]
  by (auto simp: wf_arl_def arl_register_def Let_def dom_register map_insert_def simp del: set_map)

lemma wf_arl_deregister [wf_intros]: "wf_arl a \<Longrightarrow> wf_arl (arl_deregister u a)"
  using drr.remove_ok [of "arl_sched a" u]
  by (auto simp: wf_arl_def arl_deregister_def map_remove_def [of _ "[]"] split: if_splits simp del: set_map)

lemma wf_arl_set_session [wf_intros]: "wf_arl a \<Longrightarrow> wf_arl (arl_set_session n a)"
  by (auto simp: wf_arl_def arl_set_session_def split: if_splits)

text \<open>One tick, taken apart.\<close>

lemma tick_cases:
  assumes "wf_arl a"
  obtains als s' d where
    "schedule rank (accumulate (rp_budget_bytes p) (arl_available a)) (set_backlogs (snapshot (arl_streams a)) (arl_sched a)) = (Inr als, s')"
    "wf_drr s'" "dom (drr_streams s') = dom (drr_streams (arl_sched a))"
    "alloc_total als \<le> accumulate (rp_budget_bytes p) (arl_available a)"
    "d = deliver als \<lparr>dl_streams = arl_streams a, dl_delivered = 0, dl_closed = []\<rparr>"
    "tick rank p a = (Some (dl_delivered d), clean_up (dl_closed d)
       (a\<lparr>arl_sched := s', arl_streams := dl_streams d, arl_wire_baseline := wire_bytes_absolute a,
          arl_available := deduct (accumulate (rp_budget_bytes p) (arl_available a)) (dl_delivered d)
            (saturating_sub_u64 (wire_bytes_absolute a) (arl_wire_baseline a))\<rparr>))"
proof -
  have "wf_drr (arl_sched a)" using assms by (simp add: wf_arl_def)
  then obtain als s' where r: "schedule rank (accumulate (rp_budget_bytes p) (arl_available a))
        (set_backlogs (snapshot (arl_streams a)) (arl_sched a)) = (Inr als, s')"
    "wf_drr s'" "dom (drr_streams s') = dom (drr_streams (arl_sched a))"
    "alloc_total als \<le> accumulate (rp_budget_bytes p) (arl_available a)"
    unfolding set_backlogs_def by (rule drr.round_ok [where rank = rank])
  then show ?thesis using that [of als s' "deliver als \<lparr>dl_streams = arl_streams a, dl_delivered = 0, dl_closed = []\<rparr>"]
    by (simp add: tick_def Let_def wire_bytes_absolute_def clean_up_def)
qed

lemma wf_arl_clean_up:
  assumes "wf_drr (arl_sched a)" "distinct (map fst (arl_streams a))"
    "if arl_params a = None then arl_streams a = [] else set (map fst (arl_streams a)) = dom (drr_streams (arl_sched a))"
  shows "wf_arl (clean_up us a)"
proof -
  have "foldl (\<lambda>m u. map_remove u m) [] us = ([] :: (uuid \<times> arl_entry) list)"
    by (induction us) (simp_all add: map_remove_def)
  then show ?thesis
    using assms drr.remove_all [OF assms(1), of us] foldl_map_remove(1) [of "arl_streams a" us]
    by (auto simp: wf_arl_def clean_up_def simp del: set_map)
qed

lemma wf_arl_tick [wf_intros]:
  assumes "wf_arl a"
  shows "wf_arl (snd (tick rank p a))"
proof -
  obtain als s' d where "wf_drr s'" "dom (drr_streams s') = dom (drr_streams (arl_sched a))"
    and d: "d = deliver als \<lparr>dl_streams = arl_streams a, dl_delivered = 0, dl_closed = []\<rparr>"
    and t: "tick rank p a = (Some (dl_delivered d), clean_up (dl_closed d)
       (a\<lparr>arl_sched := s', arl_streams := dl_streams d, arl_wire_baseline := wire_bytes_absolute a,
          arl_available := deduct (accumulate (rp_budget_bytes p) (arl_available a)) (dl_delivered d)
            (saturating_sub_u64 (wire_bytes_absolute a) (arl_wire_baseline a))\<rparr>))"
    by (rule tick_cases [OF assms, of rank p])
  moreover have "map fst (dl_streams d) = map fst (arl_streams a)" by (simp add: d deliver_keys)
  ultimately show ?thesis using assms unfolding t wf_arl_def [of a] snd_conv
    by (intro wf_arl_clean_up) (auto simp del: set_map)
qed

section \<open>Tickets\<close>

definition tickets_total :: "(uuid \<times> arl_entry) list \<Rightarrow> nat" where
  "tickets_total m = sum_list (map (\<lambda>p. unwrap_or (ae_ticket (snd p)) 0) m)"

lemma tickets_total_set:
  "distinct (map fst m) \<Longrightarrow> map_of m u = Some e \<Longrightarrow> ae_ticket e = None \<Longrightarrow>
     tickets_total (map (\<lambda>p. if fst p = u then (u, e\<lparr>ae_ticket := Some b\<rparr>) else p) m) = tickets_total m + b"
proof (induction m)
  case (Cons p m)
  have id: "map (\<lambda>p. if fst p = u then (u, e') else p) m = m" if "u \<notin> set (map fst m)" for e' :: arl_entry
    using that by (induction m) auto
  show ?case
  proof (cases "fst p = u")
    case True
    with Cons.prems have "snd p = e" "u \<notin> set (map fst m)" by (cases p; auto)+
    then show ?thesis using True Cons.prems(3) id by (simp add: tickets_total_def)
  next
    case False
    then have "map_of m u = Some e" using Cons.prems(2) by (cases p) auto
    then show ?thesis using False Cons by (simp add: tickets_total_def)
  qed
qed simp

lemma deliver_one_tickets:
  assumes "distinct (map fst (dl_streams d))" "dl_delivered d + snd al \<le> u64_max"
  shows "tickets_total (dl_streams (deliver_one al d)) + dl_delivered d =
    tickets_total (dl_streams d) + dl_delivered (deliver_one al d)"
  using assms
  by (cases al) (auto simp: deliver_one_def tickets_total_set saturating_add_u64_def split: option.splits)

lemma deliver_tickets:
  "distinct (map fst (dl_streams d)) \<Longrightarrow> dl_delivered d + alloc_total als \<le> u64_max \<Longrightarrow>
    tickets_total (dl_streams (deliver als d)) + dl_delivered d = tickets_total (dl_streams d) + dl_delivered (deliver als d)"
proof (induction als d rule: deliver.induct)
  case (2 al als d)
  have "dl_delivered (deliver_one al d) + alloc_total als \<le> u64_max"
    using "2.prems"(2) deliver_one_total [of al d] by simp
  then have "tickets_total (dl_streams (deliver als (deliver_one al d))) + dl_delivered (deliver_one al d) =
      tickets_total (dl_streams (deliver_one al d)) + dl_delivered (deliver als (deliver_one al d))"
    using "2.IH" "2.prems"(1) deliver_one_keys [of al d] by simp
  moreover have "tickets_total (dl_streams (deliver_one al d)) + dl_delivered d =
      tickets_total (dl_streams d) + dl_delivered (deliver_one al d)"
    using "2.prems" by (intro deliver_one_tickets) simp_all
  ultimately show ?case by simp
qed simp

lemma tickets_total_remove: "tickets_total (map_remove u m) \<le> tickets_total m"
  by (induction m) (auto simp: tickets_total_def map_remove_def)

lemma tickets_total_removes: "tickets_total (foldl (\<lambda>m u. map_remove u m) m us) \<le> tickets_total m"
proof (induction us arbitrary: m)
  case (Cons u us)
  from Cons [of "map_remove u m"] show ?case using tickets_total_remove [of u m] by simp
qed simp

lemma accumulate_bound: "2 * per_tick \<le> u64_max \<Longrightarrow> accumulate per_tick b \<le> 2 * per_tick"
  by (auto simp: accumulate_def Let_def mult.commute)

section \<open>Properties\<close>

text \<open>C31 (bounds): the timer parameters. A rate below 8 bit/s divides by zero; every other 64-bit rate gives
  a period between 5 and 100 ms and the budget \<open>rate * period\<close> rounded down, with no intermediate
  product leaving 64 bits, so the budget never exceeds the configured rate. Below 80 bit/s the budget is 0.\<close>

theorem rate_params_bounds:
  assumes bps: "bps \<le> u64_max"
  shows "(bps < 8 \<longrightarrow> from_rate_bps bps CHUNK_SIZE = None) \<and>
    (8 \<le> bps \<longrightarrow> (\<exists>p. from_rate_bps bps CHUNK_SIZE = Some p \<and> 5 \<le> rp_interval p \<and> rp_interval p \<le> 100 \<and>
       rp_budget_bytes p = bps div 8 * rp_interval p div 1000 \<and> 2 * rp_budget_bytes p \<le> u64_max \<and>
       (bps < 80 \<longrightarrow> rp_budget_bytes p = 0)))"
proof (intro conjI impI)
  show "from_rate_bps bps CHUNK_SIZE = None" if "bps < 8" using that by (simp add: from_rate_bps_def)
next
  assume "8 \<le> bps"
  define r where "r = bps div 8"
  have r: "0 < r" "r \<le> 2 ^ 61" using \<open>8 \<le> bps\<close> bps by (auto simp: r_def u64_max_def)
  define i where "i = clamp_u64 (131072000 div r) 5 100"
  have i: "5 \<le> i" "i \<le> 100" using clamp_u64_bounds [of 5 100 "131072000 div r"] by (simp_all add: i_def)
  have ri: "r * i \<le> 2 ^ 61 * 5"
  proof (cases "i = 5")
    case False
    with i have "i \<le> 131072000 div r" by (auto simp: i_def clamp_u64_def split: if_splits)
    then have "r * i \<le> r * (131072000 div r)" by simp
    also have "\<dots> \<le> 131072000" by simp
    finally show ?thesis by simp
  qed (use r in simp)
  have m: "mul_u64 CHUNKS_PER_TICK CHUNK_SIZE = 131072" "mul_u64 131072 1000 = 131072000"
    by (simp_all add: mul_u64_def CHUNKS_PER_TICK_def CHUNK_SIZE_def)
  have "from_rate_bps bps CHUNK_SIZE = Some \<lparr>rp_interval = i, rp_budget_bytes = r * i div 1000\<rparr>"
    using r ri by (simp add: from_rate_bps_def m r_def [symmetric] Let_def MIN_INTERVAL_MS_def MAX_INTERVAL_MS_def
        i_def [symmetric] u64_max_def)
  moreover have "2 * (r * i div 1000) \<le> u64_max" using ri by (simp add: u64_max_def)
  moreover have "r * i div 1000 = 0" if "bps < 80"
  proof -
    have "r \<le> 9" using that by (simp add: r_def)
    then have "r * i \<le> 9 * 100" using i by (intro mult_le_mono)
    then show ?thesis by simp
  qed
  ultimately show "\<exists>p. from_rate_bps bps CHUNK_SIZE = Some p \<and> 5 \<le> rp_interval p \<and> rp_interval p \<le> 100 \<and>
       rp_budget_bytes p = bps div 8 * rp_interval p div 1000 \<and> 2 * rp_budget_bytes p \<le> u64_max \<and>
       (bps < 80 \<longrightarrow> rp_budget_bytes p = 0)"
    using i by (simp add: r_def [symmetric])
qed

theorem rate_params_bounds_witness:
  "\<exists>p. from_rate_bps 1000000 CHUNK_SIZE = Some p \<and> rp_budget_bytes p = 125000 * rp_interval p div 1000"
  using rate_params_bounds [of 1000000] by (auto simp: u64_max_def)

text \<open>C28 (invariant): the limiter's two tables stay in step. From a new limiter, registering fresh streams,
  deregistering, installing a session and any tick keep the scheduler well-formed and, in capped
  mode, the streams with a ticket channel exactly those the scheduler knows; a tick never
  meets a scheduling error.\<close>

theorem arl_invariant:
  "(arl_new rate session = Some a0 \<longrightarrow> wf_arl a0) \<and>
   (wf_arl a \<longrightarrow>
     (drr_streams (arl_sched a) u = None \<longrightarrow> wf_arl (arl_register u q a)) \<and>
     wf_arl (arl_deregister u a) \<and> wf_arl (arl_set_session n a) \<and>
     (\<exists>m a'. tick rank p a = (Some m, a') \<and> wf_arl a'))"
proof -
  have "\<exists>m a'. tick rank p a = (Some m, a') \<and> wf_arl a'" if "wf_arl a"
    using tick_cases [OF that, of rank p] wf_arl_tick [OF that, of rank p] by (metis snd_conv)
  then show ?thesis using wf_arl_new wf_arl_register wf_arl_deregister wf_arl_set_session by blast
qed

definition demo_arl :: arl where
  "demo_arl = \<lparr>arl_sched = drr_new, arl_streams = [], arl_params = Some \<lparr>rp_interval = 100, rp_budget_bytes = 12500\<rparr>,
     arl_session = Some 0, arl_wire_baseline = 0, arl_available = 0\<rparr>"

lemma demo_arl_new: "arl_new (Some 1000000) 0 = Some demo_arl"
  by (simp add: arl_new_def demo_arl_def from_rate_bps_def CHUNKS_PER_TICK_def CHUNK_SIZE_def mul_u64_def
      clamp_u64_def MIN_INTERVAL_MS_def MAX_INTERVAL_MS_def)

theorem arl_invariant_witness:
  "wf_arl demo_arl \<and> wf_arl (arl_register 1 c2i_priority_min demo_arl)"
proof -
  have w: "wf_arl demo_arl" using arl_invariant [of "Some 1000000" 0 demo_arl] demo_arl_new by blast
  moreover have "drr_streams (arl_sched demo_arl) 1 = None" by (simp add: demo_arl_def drr_new_def)
  ultimately show ?thesis using arl_invariant [where a = demo_arl and u = 1] by blast
qed



text \<open>A stream whose pump is gone is forgotten by the first tick that allots it bytes, by the
  limiter and the scheduler alike; every other stream stays known to both.\<close>

theorem tick_drops_closed:
  assumes wf: "wf_arl a" "arl_params a \<noteq> None" and u: "map_of (arl_streams a) u = Some e"
    and s: "schedule rank (accumulate (rp_budget_bytes p) (arl_available a))
       (set_backlogs (snapshot (arl_streams a)) (arl_sched a)) = (Inr als, s1)"
    and t: "tick rank p a = (n, a')"
  shows "if ae_closed e \<and> (\<exists>b > 0. (u, b) \<in> set als)
    then map_of (arl_streams a') u = None \<and> drr_streams (arl_sched a') u = None
    else map_of (arl_streams a') u \<noteq> None \<and> drr_streams (arl_sched a') u \<noteq> None"
proof -
  obtain d where d: "d = deliver als \<lparr>dl_streams = arl_streams a, dl_delivered = 0, dl_closed = []\<rparr>"
    and t': "tick rank p a = (Some (dl_delivered d), clean_up (dl_closed d)
       (a\<lparr>arl_sched := s1, arl_streams := dl_streams d, arl_wire_baseline := wire_bytes_absolute a,
          arl_available := deduct (accumulate (rp_budget_bytes p) (arl_available a)) (dl_delivered d)
            (saturating_sub_u64 (wire_bytes_absolute a) (arl_wire_baseline a))\<rparr>))"
    by (rule tick_cases [OF wf(1), of rank p]) (use s in auto)
  have "u \<in> set (dl_closed d) \<longleftrightarrow> ae_closed e \<and> (\<exists>b > 0. (u, b) \<in> set als)"
    using u by (auto simp: d deliver_closed)
  moreover have "arl_streams a' = foldl (\<lambda>m u. map_remove u m) (dl_streams d) (dl_closed d)"
    using t t' by (auto simp: clean_up_def)
  then have "map_of (arl_streams a') u = None \<longleftrightarrow> u \<in> set (dl_closed d)"
    using deliver_entry [of "\<lparr>dl_streams = arl_streams a, dl_delivered = 0, dl_closed = []\<rparr>" u e als, folded d] u
    by (auto simp: foldl_map_remove(2))
  moreover have "drr_streams (arl_sched a') u = None \<longleftrightarrow> map_of (arl_streams a') u = None"
  proof -
    have "wf_arl a'" using wf_arl_tick [OF wf(1), of rank p] t by simp
    moreover have "arl_params a' \<noteq> None" using t t' wf(2) by (auto simp: clean_up_def)
    ultimately show ?thesis by (auto simp: wf_arl_def map_of_keys domIff simp del: set_map split: if_splits)
  qed
  ultimately show ?thesis by auto
qed

definition closed_arl :: arl where
  "closed_arl = (arl_register 1 c2i_priority_min demo_arl)\<lparr>arl_streams :=
     [(1, \<lparr>ae_ticket = None, ae_closed = True, ae_head_offset = 500, ae_q = 100\<rparr>)]\<rparr>"

lemma closed_arl_facts:
  "wf_arl closed_arl" "arl_params closed_arl \<noteq> None"
  "schedule id 12500 (set_backlogs (snapshot (arl_streams closed_arl)) (arl_sched closed_arl)) =
     (Inr [(1, 400)], set_backlogs (snapshot (arl_streams closed_arl)) (arl_sched closed_arl))"
proof -
  have s: "arl_sched closed_arl = \<lparr>drr_streams = [1 \<mapsto> \<lparr>se_priority = c2i_priority_min, se_deficit = 0,
      se_quantum = 65536, se_backlog = 0\<rparr>], bulk_order = [], c2i_queue = [1]\<rparr>"
    by (simp add: closed_arl_def demo_arl_def arl_register_def register_def drr_new_def c2i_insert_def vec_insert_def initial_quantum_def)
  have "wf_arl (arl_register 1 c2i_priority_min demo_arl)"
    by (rule wf_arl_register [OF wf_arl_new [OF demo_arl_new]]) (simp add: demo_arl_def drr_new_def)
  then show "wf_arl closed_arl"
    by (simp add: wf_arl_def closed_arl_def arl_register_def demo_arl_def Let_def map_insert_def map_remove_def)
  show "arl_params closed_arl \<noteq> None" by (simp add: closed_arl_def arl_register_def demo_arl_def)
  have "snapshot (arl_streams closed_arl) = [(1, 400)]"
    by (simp add: closed_arl_def snapshot_def saturating_sub_u64_def)
  then show "schedule id 12500 (set_backlogs (snapshot (arl_streams closed_arl)) (arl_sched closed_arl)) =
     (Inr [(1, 400)], set_backlogs (snapshot (arl_streams closed_arl)) (arl_sched closed_arl))"
    by (simp add: s set_backlogs_def set_backlog_def schedule_def)
qed

theorem tick_drops_closed_witness:
  "\<exists>n a'. tick id \<lparr>rp_interval = 100, rp_budget_bytes = 12500\<rparr> closed_arl = (n, a') \<and>
     map_of (arl_streams a') 1 = None \<and> drr_streams (arl_sched a') 1 = None"
proof -
  obtain n a' where t: "tick id \<lparr>rp_interval = 100, rp_budget_bytes = 12500\<rparr> closed_arl = (n, a')" by fastforce
  have acc: "accumulate 12500 (arl_available closed_arl) = 12500"
    by (simp add: accumulate_def closed_arl_def arl_register_def demo_arl_def saturating_add_u64_def mul_u64_def u64_max_def)
  have u: "map_of (arl_streams closed_arl) 1 = Some \<lparr>ae_ticket = None, ae_closed = True, ae_head_offset = 500, ae_q = 100\<rparr>"
    by (simp add: closed_arl_def)
  have "map_of (arl_streams a') 1 = None \<and> drr_streams (arl_sched a') 1 = None"
    using tick_drops_closed [OF closed_arl_facts(1,2) u _ t, of "[(1, 400)]"] closed_arl_facts(3) acc by simp
  with t show ?thesis by blast
qed

section \<open>The cap is not always kept\<close>

text \<open>A limiter with one strict stream that always has data, whose pump has taken its ticket, and
  with a tick's budget left over.\<close>

definition strict_saturated :: "uuid \<Rightarrow> nat \<Rightarrow> arl \<Rightarrow> bool" where
  "strict_saturated u P a \<longleftrightarrow>
     c2i_queue (arl_sched a) = [u] \<and> bulk_order (arl_sched a) = [] \<and>
     map_option se_quantum (drr_streams (arl_sched a) u) = Some 65536 \<and>
     (\<exists>en. arl_streams a = [(u, en)] \<and> ae_ticket en = None \<and> \<not> ae_closed en \<and> 65536 \<le> ae_head_offset en - ae_q en) \<and>
     P \<le> arl_available a \<and> arl_session a = Some (arl_wire_baseline a + 65536)"

text \<open>The pump takes its ticket, 65536 bytes leave the host and as many arrive from the client.\<close>

definition pump_round :: "arl \<Rightarrow> arl" where
  "pump_round a = a\<lparr>
     arl_streams := map (\<lambda>(u, en). (u, en\<lparr>ae_ticket := None, ae_q := ae_q en + 65536, ae_head_offset := ae_head_offset en + 65536\<rparr>)) (arl_streams a),
     arl_session := map_option (\<lambda>n. n + 65536) (arl_session a)\<rparr>"

text \<open>C36 (functional): step 4 of the tick credits what was not delivered twice: it stays in the budget
  when only wire bytes are deducted, and is added again. A strict stream that uses its 64 KiB
  quantum every tick keeps that rate for ever with a per-tick budget of 43691 bytes, two thirds of it:
  each tick delivers 65536 bytes, as many leave on the wire, and the limiter is back in the same state.\<close>

theorem strict_stream_exceeds_cap:
  assumes s: "strict_saturated u (rp_budget_bytes p) a"
    and P: "43691 \<le> rp_budget_bytes p" "4 * rp_budget_bytes p \<le> u64_max"
  shows "\<exists>a'. tick rank p a = (Some 65536, a') \<and> strict_saturated u (rp_budget_bytes p) (pump_round a')"
proof -
  let ?P = "rp_budget_bytes p"
  from s obtain en e where en: "arl_streams a = [(u, en)]" "ae_ticket en = None" "\<not> ae_closed en" "65536 \<le> ae_head_offset en - ae_q en"
    and e: "drr_streams (arl_sched a) u = Some e" "se_quantum e = 65536"
    and q: "c2i_queue (arl_sched a) = [u]" "bulk_order (arl_sched a) = []" "?P \<le> arl_available a"
      "arl_session a = Some (arl_wire_baseline a + 65536)"
    by (auto simp: strict_saturated_def)
  have acc: "accumulate ?P (arl_available a) = 2 * ?P"
    using q(3) P(2) by (auto simp: accumulate_def Let_def saturating_add_u64_def mult.commute)
  define sc where "sc = set_backlogs (snapshot (arl_streams a)) (arl_sched a)"
  have sc: "c2i_queue sc = [u]" "bulk_order sc = []" "drr_streams sc u = Some (e\<lparr>se_backlog := ae_head_offset en - ae_q en\<rparr>)"
    using q e by (simp_all add: sc_def set_backlogs_def set_backlog_def snapshot_def en saturating_sub_u64_def)
  have "min (min (2 * ?P) (ae_head_offset en - ae_q en)) 65536 = 65536" using P(1) en(4) by simp
  then have sched: "schedule rank (2 * ?P) sc = (Inr [(u, 65536)], sc)"
    using sc e(2) P(1) by (simp add: schedule_def Let_def)
  define a' where "a' = a\<lparr>arl_sched := sc, arl_streams := [(u, en\<lparr>ae_ticket := Some 65536\<rparr>)],
     arl_wire_baseline := arl_wire_baseline a + 65536, arl_available := deduct (2 * ?P) 65536 65536\<rparr>"
  have t: "tick rank p a = (Some 65536, a')"
    using acc sched [unfolded sc_def en(1)] en(2,3) q(4)
    by (simp add: tick_def sc_def Let_def en(1) deliver_one_def saturating_add_u64_def saturating_sub_u64_def u64_max_def a'_def)
  have "deduct (2 * ?P) 65536 65536 = 4 * ?P - 131072"
    using P by (simp add: deduct_def saturating_add_u64_def saturating_sub_u64_def)
  then have "?P \<le> arl_available a'" using P(1) by (simp add: a'_def)
  then have "strict_saturated u ?P (pump_round a')"
    using en sc e(2) by (simp add: strict_saturated_def pump_round_def a'_def q(4))
  with t show ?thesis by blast
qed

definition saturated_arl :: arl where
  "saturated_arl = \<lparr>arl_sched = \<lparr>drr_streams = [1 \<mapsto> \<lparr>se_priority = c2i_priority_min, se_deficit = 0,
       se_quantum = 65536, se_backlog = 0\<rparr>], bulk_order = [], c2i_queue = [1]\<rparr>,
     arl_streams = [(1, \<lparr>ae_ticket = None, ae_closed = False, ae_head_offset = 100000, ae_q = 0\<rparr>)],
     arl_params = Some \<lparr>rp_interval = 100, rp_budget_bytes = 43691\<rparr>,
     arl_session = Some 65536, arl_wire_baseline = 0, arl_available = 43691\<rparr>"

theorem strict_stream_exceeds_cap_witness:
  "strict_saturated 1 43691 saturated_arl \<and>
   (\<exists>a'. tick id \<lparr>rp_interval = 100, rp_budget_bytes = 43691\<rparr> saturated_arl = (Some 65536, a') \<and>
      strict_saturated 1 43691 (pump_round a'))"
proof -
  have s: "strict_saturated 1 43691 saturated_arl" by (simp add: strict_saturated_def saturated_arl_def)
  with strict_stream_exceeds_cap [of 1 "\<lparr>rp_interval = 100, rp_budget_bytes = 43691\<rparr>" saturated_arl id]
  show ?thesis by (simp add: u64_max_def)
qed

end
