(* ===== verification/Session_Manager.thy ===== *)
theory Session_Manager
  imports Rate_Limiter Uplink Downlink
begin

text \<open>
  The session manager (quelay-agent/src/session_manager.rs): admission of streams, the pending
  queue, promotion into active slots, recovery after a link failure and the inbound accept loop.

  What the transport and the operating system answer when a stream is opened is an argument: \<open>env\<close>
  gives for each stream how far \<open>open_stream_on_session\<close> gets. A live session is identified by its
  wire-byte counter, as the rate limiter sees it. The maps of active streams are association lists in
  the order the \<open>HashMap\<close> happens to have. \<open>sm_callbacks\<close> records what was sent to the client.
\<close>

section \<open>State\<close>

record pending_stream =
  ps_uuid :: uuid
  ps_info :: stream_info
  ps_priority :: priority

text \<open>\<open>UplinkHandle\<close> as the session manager uses it: the priority, A of its spool, the channel
  (capacity 4) that brings it a new stream, and the rate limiter's command channel.\<close>

record uplink_handle =
  uh_priority :: priority
  uh_bytes_acked :: nat
  uh_queued :: nat
  uh_closed :: bool
  uh_link_down_tx :: "cmd_channel option"

record remote_state =
  rs_session :: "nat option"
  rs_pending :: "pending_stream list"
  rs_max_concurrent :: "nat option"
  rs_max_pending :: nat
  rs_active :: "(uuid \<times> uplink_handle) list"
  rs_downlinks :: "(uuid \<times> nat downlink_handle) list"

record session_manager =
  sm_remote :: "remote_state option"
  sm_link_state :: link_state
  sm_arl :: arl
  sm_callbacks :: "callback_cmd list"
  sm_restored :: nat
  sm_closed :: "nat list"

datatype start_status = RUNNING | PENDING | QUEUE_FULL | NOT_CONNECTED

record start_response =
  sr_status :: start_status
  sr_queue_position :: "int option"

section \<open>The queue\<close>

definition rs_new :: "nat \<Rightarrow> nat option \<Rightarrow> nat \<Rightarrow> remote_state" where
  "rs_new session max_concurrent max_pending = \<lparr>rs_session = Some session, rs_pending = [],
     rs_max_concurrent = max_concurrent, rs_max_pending = max_pending, rs_active = [], rs_downlinks = []\<rparr>"

definition enqueue_pos :: "pending_stream \<Rightarrow> pending_stream list \<Rightarrow> nat" where
  "enqueue_pos p pending = unwrap_or (position (\<lambda>e. ps_priority e < ps_priority p) pending) (length pending)"

definition enqueue :: "pending_stream \<Rightarrow> remote_state \<Rightarrow> nat \<times> remote_state" where
  "enqueue p r =
     (let pos = enqueue_pos p (rs_pending r)
      in (pos + 1, r\<lparr>rs_pending := vec_insert pos p (rs_pending r)\<rparr>))"

definition queue_status_of :: "remote_state \<Rightarrow> queue_status" where
  "queue_status_of r = \<lparr>active_count = as_i32 (length (rs_active r)),
     qs_max_concurrent = as_i32 (unwrap_or (rs_max_concurrent r) 0),
     qs_max_pending = as_i32 (rs_max_pending r), qs_pending = map ps_uuid (rs_pending r)\<rparr>"

definition has_active_slot :: "remote_state \<Rightarrow> bool" where
  "has_active_slot r = (case rs_max_concurrent r of Some m \<Rightarrow> length (rs_active r) < m | None \<Rightarrow> True)"

definition pending_queue_full :: "remote_state \<Rightarrow> bool" where
  "pending_queue_full r = (rs_max_pending r \<le> length (rs_pending r))"

section \<open>Opening streams\<close>

datatype open_result = OpenFailed | HeaderFailed | SpawnFailed | Opened nat

definition open_stream_on_session :: "open_result \<Rightarrow> pending_stream \<Rightarrow> arl \<Rightarrow>
    uplink_handle option \<times> arl \<times> callback_cmd list" where
  "open_stream_on_session res p a =
     (case res of
        OpenFailed \<Rightarrow> (None, a, [])
      | HeaderFailed \<Rightarrow> (None, a, [])
      | SpawnFailed \<Rightarrow> (None, arl_register (ps_uuid p) (ps_priority p) a, [])
      | Opened port \<Rightarrow>
          (Some \<lparr>uh_priority = ps_priority p, uh_bytes_acked = 0, uh_queued = 0, uh_closed = False, uh_link_down_tx = Some \<lparr>cc_queue = [], cc_open = True\<rparr>\<rparr>,
           arl_register (ps_uuid p) (ps_priority p) a, [StreamStarted (ps_uuid p) (ps_info p) port]))"

definition sm_new :: "nat \<Rightarrow> nat option \<Rightarrow> nat \<Rightarrow> nat \<Rightarrow> link_state \<Rightarrow> session_manager option" where
  "sm_new session bw_cap_bps cfg_max_concurrent cfg_max_pending ls =
     (case arl_new bw_cap_bps session of
        None \<Rightarrow> None
      | Some a \<Rightarrow> Some \<lparr>
          sm_remote = Some (rs_new session (if cfg_max_concurrent = 0 then None else Some cfg_max_concurrent) cfg_max_pending),
          sm_link_state = ls, sm_arl = a, sm_callbacks = [], sm_restored = 0, sm_closed = []\<rparr>)"

definition on_stream_start :: "open_result \<Rightarrow> pending_stream \<Rightarrow> session_manager \<Rightarrow> start_response \<times> session_manager" where
  "on_stream_start res p m =
     (case sm_remote m of
        None \<Rightarrow> (\<lparr>sr_status = NOT_CONNECTED, sr_queue_position = None\<rparr>, m)
      | Some r \<Rightarrow>
          let (handle, a, cbs) =
                (if has_active_slot r \<and> rs_session r \<noteq> None then open_stream_on_session res p (sm_arl m) else (None, sm_arl m, []))
          in case handle of
               Some h \<Rightarrow>
                 (\<lparr>sr_status = RUNNING, sr_queue_position = None\<rparr>,
                  m\<lparr>sm_arl := a, sm_callbacks := sm_callbacks m @ cbs @ [QueueStatus (queue_status_of r)],
                    sm_remote := Some (r\<lparr>rs_active := map_insert (ps_uuid p) h (rs_active r)\<rparr>)\<rparr>)
             | None \<Rightarrow>
                 if pending_queue_full r
                 then (\<lparr>sr_status = QUEUE_FULL, sr_queue_position = None\<rparr>,
                       m\<lparr>sm_arl := a, sm_callbacks := sm_callbacks m @ [QueueStatus (queue_status_of r)]\<rparr>)
                 else let (position, r') = enqueue p r
                      in (\<lparr>sr_status = PENDING, sr_queue_position = Some (as_i32 position)\<rparr>,
                          m\<lparr>sm_arl := a, sm_remote := Some r', sm_callbacks := sm_callbacks m @ [QueueStatus (queue_status_of r')]\<rparr>))"

section \<open>Promotion\<close>

definition promote_pending :: "(uuid \<Rightarrow> open_result) \<Rightarrow> remote_state \<Rightarrow> arl \<Rightarrow> remote_state \<times> arl \<times> callback_cmd list" where
  "promote_pending env r a =
     (case rs_pending r of
        [] \<Rightarrow> (r, a, [])
      | p # ps \<Rightarrow>
          if \<not> has_active_slot r \<or> rs_session r = None then (r, a, [])
          else case open_stream_on_session (env (ps_uuid p)) p a of
                 (Some h, a', cbs) \<Rightarrow> (r\<lparr>rs_active := map_insert (ps_uuid p) h (rs_active r), rs_pending := ps\<rparr>, a', cbs)
               | (None, a', cbs) \<Rightarrow> (r, a', cbs))"

text \<open>The loop of \<open>drain_pending\<close> over the entries with their indices; \<open>promoted\<close> collects those opened.\<close>

fun drain_pending_loop :: "(uuid \<Rightarrow> open_result) \<Rightarrow> nat \<Rightarrow> pending_stream list \<Rightarrow> remote_state \<Rightarrow> arl \<Rightarrow> callback_cmd list \<Rightarrow> nat list \<Rightarrow>
    remote_state \<times> arl \<times> callback_cmd list \<times> nat list" where
  "drain_pending_loop env i [] r a cbs promoted = (r, a, cbs, promoted)"
| "drain_pending_loop env i (p # ps) r a cbs promoted =
     (if \<not> has_active_slot r then (r, a, cbs, promoted)
      else case open_stream_on_session (env (ps_uuid p)) p a of
             (Some h, a', cb) \<Rightarrow>
               drain_pending_loop env (Suc i) ps (r\<lparr>rs_active := map_insert (ps_uuid p) h (rs_active r)\<rparr>) a' (cbs @ cb) (promoted @ [i])
           | (None, a', cb) \<Rightarrow> drain_pending_loop env (Suc i) ps r a' (cbs @ cb) promoted)"

definition drain_pending :: "(uuid \<Rightarrow> open_result) \<Rightarrow> remote_state \<Rightarrow> arl \<Rightarrow> remote_state \<times> arl \<times> callback_cmd list" where
  "drain_pending env r a =
     (case rs_session r of
        None \<Rightarrow> (r, a, [])
      | Some _ \<Rightarrow>
          let (r', a', cbs, promoted) = drain_pending_loop env 0 (rs_pending r) r a [] []
          in (r'\<lparr>rs_pending := foldl (\<lambda>ps i. vec_remove i ps) (rs_pending r') (rev promoted)\<rparr>, a', cbs))"

section \<open>Recovery\<close>

text \<open>What happens to one handle: \<open>open_ok\<close> and \<open>header_ok\<close> are the answers of the transport. The new
  stream goes into the handle's channel if that is open and not full; otherwise the handle is pruned.\<close>

definition restore_one :: "bool \<Rightarrow> bool \<Rightarrow> uplink_handle \<Rightarrow> uplink_handle option" where
  "restore_one open_ok header_ok h =
     (if \<not> open_ok then Some h
      else if \<not> header_ok then Some h
      else if uh_closed h \<or> 4 \<le> uh_queued h then None
      else Some (h\<lparr>uh_queued := Suc (uh_queued h)\<rparr>))"

definition restore_active :: "(uuid \<Rightarrow> bool \<times> bool) \<Rightarrow> remote_state \<Rightarrow> remote_state" where
  "restore_active env r =
     (case rs_session r of
        None \<Rightarrow> r
      | Some _ \<Rightarrow>
          let active = List.map_filter (\<lambda>(u, h). case restore_one (fst (env u)) (snd (env u)) h of None \<Rightarrow> None | Some h' \<Rightarrow> Some (u, h')) (rs_active r)
          in r\<lparr>rs_active := filter (\<lambda>(u, h). \<not> uh_closed h) active\<rparr>)"

text \<open>The header \<open>restore_active\<close> writes for a handle.\<close>

definition reconnect_header_of :: "uuid \<Rightarrow> uplink_handle \<Rightarrow> reconnect_header" where
  "reconnect_header_of u h = \<lparr>rh_uuid = u, rh_replay_from = uh_bytes_acked h\<rparr>"

definition on_link_failed :: "session_manager \<Rightarrow> session_manager" where
  "on_link_failed m =
     (case sm_remote m of None \<Rightarrow> m | Some r \<Rightarrow> m\<lparr>sm_remote := Some (r\<lparr>rs_session := None\<rparr>)\<rparr>)"

text \<open>How to connect again. In server mode \<open>sess_rx\<close> holds the sessions the endpoint will deliver before
  it shuts down. The answers of the resolver and the QUIC library to one attempt are in a \<open>network\<close>.\<close>

datatype congestion_algo = NewReno | Bbr | Cubic

datatype transport_config =
    Server "nat list"
  | Client string string "u8 list" congestion_algo

record network =
  lookup_host :: "string \<Rightarrow> string + nat list"
  client_new :: "u8 list \<Rightarrow> string \<Rightarrow> congestion_algo \<Rightarrow> string + nat"
  connect_to :: "nat \<Rightarrow> nat \<Rightarrow> string + nat"

definition try_connect :: "network \<Rightarrow> transport_config \<Rightarrow> (string + nat) \<times> transport_config" where
  "try_connect net cfg =
     (case cfg of
        Client peer server_name cert_der algo \<Rightarrow>
          (case lookup_host net peer of
             Inl e \<Rightarrow> Inl ''DNS resolution failed''
           | Inr [] \<Rightarrow> Inl ''no addresses found''
           | Inr (peer_addr # _) \<Rightarrow>
               (case client_new net cert_der server_name algo of
                  Inl e \<Rightarrow> Inl e
                | Inr transport \<Rightarrow> connect_to net transport peer_addr), cfg)
      | Server [] \<Rightarrow> (Inl ''accept channel closed'', cfg)
      | Server (session # sess_rx) \<Rightarrow> (Inr session, Server sess_rx))"

text \<open>\<open>reconnect_loop\<close>: one network per attempt; the result is the session and the pauses in seconds
  after the failed attempts. \<open>None\<close> when the given attempts all fail: the loop goes on.\<close>

definition MAX_BACKOFF :: nat where "MAX_BACKOFF = 30"

fun reconnect_loop :: "nat \<Rightarrow> network list \<Rightarrow> transport_config \<Rightarrow> (nat \<times> nat list \<times> transport_config) option" where
  "reconnect_loop backoff [] cfg = None"
| "reconnect_loop backoff (net # nets) cfg =
     (case try_connect net cfg of
        (Inr session, cfg') \<Rightarrow> Some (session, [], cfg')
      | (Inl e, cfg') \<Rightarrow>
          map_option (\<lambda>(session, pauses, cfg''). (session, backoff # pauses, cfg''))
            (reconnect_loop (min (backoff * 2) MAX_BACKOFF) nets cfg'))"

text \<open>The part of \<open>run\<close> that handles a change of the link state; \<open>new_session\<close> is the session the
  reconnect loop returns.\<close>

definition on_link_state :: "(uuid \<Rightarrow> bool \<times> bool) \<Rightarrow> (uuid \<Rightarrow> open_result) \<Rightarrow> nat \<Rightarrow> link_state \<Rightarrow> session_manager \<Rightarrow> session_manager" where
  "on_link_state renv env new_session new_state m =
     (let m1 = m\<lparr>sm_link_state := new_state\<rparr>
      in if new_state \<noteq> Failed then m1
         else let m2 = on_link_failed m1
              in case sm_remote m2 of
                   None \<Rightarrow> m2
                 | Some r \<Rightarrow>
                     let r1 = restore_active renv (r\<lparr>rs_session := Some new_session\<rparr>);
                         (r2, a, cbs) = drain_pending env r1 (sm_arl m2)
                     in m2\<lparr>sm_link_state := Normal, sm_remote := Some r2, sm_arl := arl_set_session new_session a,
                           sm_callbacks := sm_callbacks m2 @ cbs, sm_restored := Suc (sm_restored m2)\<rparr>)"

section \<open>Commands\<close>

datatype session_command =
    CmdStreamStart pending_stream
  | CmdStreamFinished string
  | CmdGetConnStats
  | CmdSetMaxConcurrent "nat option"
  | CmdLinkEnable bool

datatype session_reply = NoReply | StartReply start_response | StatsReply conn_stats

text \<open>The two commands that free a slot end alike.\<close>

definition refill :: "(uuid \<Rightarrow> open_result) \<Rightarrow> remote_state \<Rightarrow> session_manager \<Rightarrow> session_manager" where
  "refill env r m =
     (let (r', a, cbs) = promote_pending env r (sm_arl m)
      in m\<lparr>sm_remote := Some r', sm_arl := a, sm_callbacks := sm_callbacks m @ cbs @ [QueueStatus (queue_status_of r')]\<rparr>)"

text \<open>The test hook that takes the link down: every uplink is told, then the session is closed (which
  makes it publish \<open>Failed\<close>).\<close>

definition notify_link_down :: "uplink_handle \<Rightarrow> uplink_handle" where
  "notify_link_down h = (case uh_link_down_tx h of None \<Rightarrow> h | Some tx \<Rightarrow> h\<lparr>uh_link_down_tx := Some (link_down tx)\<rparr>)"

definition link_enable :: "bool \<Rightarrow> session_manager \<Rightarrow> session_manager" where
  "link_enable enabled m =
     (if enabled then m
      else case sm_remote m of
             None \<Rightarrow> m
           | Some r \<Rightarrow>
               m\<lparr>sm_remote := Some (r\<lparr>rs_active := map (\<lambda>(u, h). (u, notify_link_down h)) (rs_active r)\<rparr>),
                 sm_closed := sm_closed m @ (case rs_session r of None \<Rightarrow> [] | Some s \<Rightarrow> [s])\<rparr>)"

definition dispatch_cmd :: "(string \<Rightarrow> uuid option) \<Rightarrow> (nat \<Rightarrow> conn_stats) \<Rightarrow> (uuid \<Rightarrow> open_result) \<Rightarrow>
    session_command \<Rightarrow> session_manager \<Rightarrow> session_reply \<times> session_manager" where
  "dispatch_cmd parse_str stats env cmd m =
     (case cmd of
        CmdStreamStart p \<Rightarrow> (let (resp, m') = on_stream_start (env (ps_uuid p)) p m in (StartReply resp, m'))
      | CmdStreamFinished s \<Rightarrow>
          (case parse_str s of
             None \<Rightarrow> (NoReply, m)
           | Some u \<Rightarrow>
               (case sm_remote m of
                  None \<Rightarrow> (NoReply, m)
                | Some r \<Rightarrow> (NoReply, refill env (r\<lparr>rs_active := map_remove u (rs_active r)\<rparr>) m)))
      | CmdGetConnStats \<Rightarrow>
          (StatsReply (case sm_remote m of None \<Rightarrow> default_conn_stats
             | Some r \<Rightarrow> (case rs_session r of None \<Rightarrow> default_conn_stats | Some s \<Rightarrow> stats s)), m)
      | CmdSetMaxConcurrent new_limit \<Rightarrow>
          (case sm_remote m of
             None \<Rightarrow> (NoReply, m)
           | Some r \<Rightarrow> (NoReply, refill env (r\<lparr>rs_max_concurrent := new_limit\<rparr>) m))
      | CmdLinkEnable enable \<Rightarrow> (NoReply, link_enable enable m))"

section \<open>The accept loop\<close>

text \<open>One accepted stream (a number stands for it), after \<open>read_stream_open\<close>. \<open>spawn_ok\<close> is whether the
  downlink task could be spawned, with its port.\<close>

definition accept_open :: "nat option \<Rightarrow> nat \<Rightarrow> stream_open \<Rightarrow> session_manager \<Rightarrow> session_manager" where
  "accept_open spawn_port stream open m =
     (case open of
        New h \<Rightarrow>
          (case spawn_port of
             None \<Rightarrow> m
           | Some port \<Rightarrow>
               let info = \<lparr>size_bytes = sh_size_bytes h, attrs = sh_attrs h\<rparr>;
                   m1 = m\<lparr>sm_callbacks := sm_callbacks m @ [StreamStarted (sh_uuid h) info port]\<rparr>
               in case sm_remote m1 of
                    None \<Rightarrow> m1
                  | Some r \<Rightarrow> m1\<lparr>sm_remote := Some (r\<lparr>rs_downlinks := map_insert (sh_uuid h)
                        \<lparr>dh_queue = [stream], dh_open = True, dh_bytes_written = 0\<rparr> (rs_downlinks r)\<rparr>)\<rparr>)
      | Reconnect h \<Rightarrow>
          (case sm_remote m of
             None \<Rightarrow> m
           | Some r \<Rightarrow>
               let alive = filter (\<lambda>(u, d). dh_open d) (rs_downlinks r)
               in case map_of alive (rh_uuid h) of
                    None \<Rightarrow> m\<lparr>sm_remote := Some (r\<lparr>rs_downlinks := alive\<rparr>)\<rparr>
                  | Some d \<Rightarrow> m\<lparr>sm_remote := Some (r\<lparr>rs_downlinks :=
                        map (\<lambda>e. if fst e = rh_uuid h then (rh_uuid h, snd (deliver_reconnect_stream d (rh_replay_from h) stream)) else e) alive\<rparr>)\<rparr>))"

text \<open>One turn of \<open>accept_loop\<close>: the stream (and what can be read from it) that the session hands over,
  or that it failed; afterwards the loop goes on or waits for \<open>session_restored\<close>.\<close>

datatype accept_next = AcceptAgain | AwaitRestored

definition accept_turn :: "(u8 list \<Rightarrow> stream_header option) \<Rightarrow> (u8 list \<Rightarrow> reconnect_header option) \<Rightarrow>
    (nat \<Rightarrow> (nat \<times> reader) option) \<Rightarrow> nat option \<Rightarrow> session_manager \<Rightarrow> accept_next \<times> session_manager" where
  "accept_turn from_new from_reconnect accept_stream spawn_port m =
     (case Option.bind (sm_remote m) rs_session of
        None \<Rightarrow> (AwaitRestored, m)
      | Some session \<Rightarrow>
          (case accept_stream session of
             None \<Rightarrow> (AwaitRestored, m\<lparr>sm_closed := sm_closed m @ [session]\<rparr>)
           | Some (stream, rd) \<Rightarrow>
               (case read_stream_open from_new from_reconnect rd of
                  Inl e \<Rightarrow> (AcceptAgain, m)
                | Inr (open, rd') \<Rightarrow> (AcceptAgain, accept_open spawn_port stream open m))))"

section \<open>Invariant\<close>

interpretation pend: priority_order ps_priority "\<lambda>p ps. vec_insert (enqueue_pos p ps) p ps"
  by unfold_locales (auto simp: enqueue_pos_def intro!: insert_before_lower_split)

definition active_ids :: "remote_state \<Rightarrow> uuid list" where
  "active_ids r = map fst (rs_active r)"

definition pending_ids :: "remote_state \<Rightarrow> uuid list" where
  "pending_ids r = map ps_uuid (rs_pending r)"

definition wf_remote :: "remote_state \<Rightarrow> bool" where
  "wf_remote r \<longleftrightarrow> pend.descending (rs_pending r) \<and> length (rs_pending r) \<le> rs_max_pending r \<and>
     distinct (active_ids r) \<and> distinct (pending_ids r) \<and> set (active_ids r) \<inter> set (pending_ids r) = {}"

definition fresh_stream :: "pending_stream \<Rightarrow> remote_state \<Rightarrow> bool" where
  "fresh_stream p r \<longleftrightarrow> ps_uuid p \<notin> set (active_ids r) \<and> ps_uuid p \<notin> set (pending_ids r)"

definition within_limit :: "remote_state \<Rightarrow> bool" where
  "within_limit r \<longleftrightarrow> (case rs_max_concurrent r of Some k \<Rightarrow> length (rs_active r) \<le> k | None \<Rightarrow> True)"

lemma map_fst_map_insert: "u \<notin> set (map fst m) \<Longrightarrow> map fst (map_insert u v m) = u # map fst m"
  by (simp add: map_insert_def filter_id_conv) auto

lemma set_map_insert: "set (map fst (map_insert u v m)) = insert u (set (map fst m))"
  by (auto simp: map_insert_def map_remove_def)

lemma distinct_map_insert: "distinct (map fst m) \<Longrightarrow> distinct (map fst (map_insert u v m))"
  by (simp add: map_insert_def)

lemma length_map_insert: "length (map_insert u v m) \<le> Suc (length m)"
  by (simp add: map_insert_def map_remove_def)

lemma within_limit_insert:
  "has_active_slot r \<Longrightarrow> within_limit (r\<lparr>rs_active := map_insert u h (rs_active r)\<rparr>)"
  using length_map_insert [of u h "rs_active r"]
  by (auto simp: has_active_slot_def within_limit_def split: option.splits)

lemma enqueue_split:
  assumes "pend.descending (rs_pending r)" and "enqueue p r = (pos, r')"
  shows "\<exists>k \<le> length (rs_pending r). pos = Suc k \<and> r' = r\<lparr>rs_pending := take k (rs_pending r) @ p # drop k (rs_pending r)\<rparr> \<and>
    (\<forall>x \<in> set (take k (rs_pending r)). ps_priority p \<le> ps_priority x) \<and>
    (\<forall>x \<in> set (drop k (rs_pending r)). ps_priority x < ps_priority p) \<and> pend.descending (rs_pending r')"
proof -
  define k where "k = enqueue_pos p (rs_pending r)"
  obtain us vs where s: "rs_pending r = us @ vs" "length us = k" "\<forall>u \<in> set us. \<not> ps_priority u < ps_priority p"
    "vs = [] \<or> ps_priority (hd vs) < ps_priority p"
    unfolding k_def enqueue_pos_def by (rule position_split [of "rs_pending r" "\<lambda>e. ps_priority e < ps_priority p"])
  have "pend.descending vs" using assms(1) s(1) by (simp add: pend.descending_def sorted_wrt_append)
  then have low: "\<forall>x \<in> set vs. ps_priority x < ps_priority p" using pend.descending_tail_below s(4) by blast
  have desc: "pend.descending (vec_insert k p (rs_pending r))" using pend.ins_descending [OF assms(1), of p] by (simp add: k_def)
  have "enqueue p r = (Suc k, r\<lparr>rs_pending := vec_insert k p (rs_pending r)\<rparr>)" by (simp add: enqueue_def k_def Let_def)
  then have "pos = Suc k" "r' = r\<lparr>rs_pending := take k (rs_pending r) @ p # drop k (rs_pending r)\<rparr>"
    using assms(2) by (simp_all add: vec_insert_def)
  moreover have "take k (rs_pending r) = us" "drop k (rs_pending r) = vs" "k \<le> length (rs_pending r)" using s by simp_all
  moreover have "\<forall>x \<in> set us. ps_priority p \<le> ps_priority x" using s(3) by (simp add: not_less)
  ultimately show ?thesis using low desc by (intro exI [of _ k]) (simp add: vec_insert_def)
qed

lemma wf_enqueue:
  assumes "wf_remote r" "fresh_stream p r" "\<not> pending_queue_full r" "enqueue p r = (pos, r')"
  shows "wf_remote r'"
proof -
  obtain k where k: "k \<le> length (rs_pending r)" "r' = r\<lparr>rs_pending := take k (rs_pending r) @ p # drop k (rs_pending r)\<rparr>"
    "pend.descending (rs_pending r')"
    using enqueue_split [of r p pos r'] assms(1,4) by (auto simp: wf_remote_def)
  have "mset (pending_ids r') = add_mset (ps_uuid p) (mset (pending_ids r))"
  proof -
    have "mset (map ps_uuid (take k (rs_pending r) @ drop k (rs_pending r))) = mset (pending_ids r)" by (simp add: pending_ids_def)
    then show ?thesis unfolding k(2) by (simp add: pending_ids_def del: append_take_drop_id)
  qed
  then have "mset (pending_ids r') = mset (ps_uuid p # pending_ids r)" by simp
  then have "distinct (pending_ids r') = distinct (ps_uuid p # pending_ids r)" "set (pending_ids r') = set (ps_uuid p # pending_ids r)"
    by (metis mset_eq_imp_distinct_iff, metis mset_eq_setD)
  then show ?thesis using assms k
    by (auto simp: wf_remote_def fresh_stream_def pending_queue_full_def active_ids_def)
qed

lemma wf_activate:
  assumes "wf_remote r" "u \<notin> set (pending_ids r)"
  shows "wf_remote (r\<lparr>rs_active := map_insert u h (rs_active r)\<rparr>)"
  using assms unfolding wf_remote_def active_ids_def pending_ids_def
  by (simp add: distinct_map_insert set_map_insert del: set_map)

section \<open>Draining the queue\<close>

text \<open>\<open>drain_pending\<close> without indices: the entries that stay.\<close>

fun drain_kept :: "(uuid \<Rightarrow> open_result) \<Rightarrow> pending_stream list \<Rightarrow> remote_state \<Rightarrow> arl \<Rightarrow> callback_cmd list \<Rightarrow>
    (remote_state \<times> arl \<times> callback_cmd list) \<times> pending_stream list" where
  "drain_kept env [] r a cbs = ((r, a, cbs), [])"
| "drain_kept env (p # ps) r a cbs =
     (if \<not> has_active_slot r then ((r, a, cbs), p # ps)
      else case open_stream_on_session (env (ps_uuid p)) p a of
             (Some h, a', cb) \<Rightarrow> drain_kept env ps (r\<lparr>rs_active := map_insert (ps_uuid p) h (rs_active r)\<rparr>) a' (cbs @ cb)
           | (None, a', cb) \<Rightarrow> (let (res, kept) = drain_kept env ps r a' (cbs @ cb) in (res, p # kept)))"

lemma vec_remove_at: "length pre = i \<Longrightarrow> vec_remove i ((pre @ [x]) @ ys) = pre @ ys"
  by (simp add: vec_remove_def)

lemma drain_loop_kept:
  assumes "drain_kept env ps r a cbs = ((r', a', cbs'), kept)"
  shows "\<exists>js. drain_pending_loop env i ps r a cbs promoted = (r', a', cbs', promoted @ js) \<and>
     (\<forall>pre. length pre = i \<longrightarrow> foldl (\<lambda>ps i. vec_remove i ps) (pre @ ps) (rev js) = pre @ kept)"
  using assms
proof (induction env ps r a cbs arbitrary: i promoted kept rule: drain_kept.induct)
  case (1 env r a cbs)
  then show ?case by simp
next
  case (2 env p ps r a cbs)
  obtain ho a1 cb where o: "open_stream_on_session (env (ps_uuid p)) p a = (ho, a1, cb)" by (cases "open_stream_on_session (env (ps_uuid p)) p a")
  show ?case
  proof (cases "has_active_slot r")
    case False
    then show ?thesis using "2.prems" by (intro exI [of _ "[]"]) auto
  next
    case slot: True
    show ?thesis
    proof (cases ho)
      case (Some h)
      let ?r1 = "r\<lparr>rs_active := map_insert (ps_uuid p) h (rs_active r)\<rparr>"
      have "drain_kept env ps ?r1 a1 (cbs @ cb) = ((r', a', cbs'), kept)" using "2.prems" slot o Some by simp
      from "2.IH"(2) [OF _ o [symmetric] _ refl this, of "Suc i" "promoted @ [i]"] obtain js where
        js: "drain_pending_loop env (Suc i) ps ?r1 a1 (cbs @ cb) (promoted @ [i]) = (r', a', cbs', (promoted @ [i]) @ js)"
        "\<forall>pre. length pre = Suc i \<longrightarrow> foldl (\<lambda>ps i. vec_remove i ps) (pre @ ps) (rev js) = pre @ kept"
        using slot Some by auto
      have "foldl (\<lambda>ps i. vec_remove i ps) (pre @ p # ps) (rev (i # js)) = pre @ kept" if "length pre = i" for pre
        using js(2) [rule_format, of "pre @ [p]"] that vec_remove_at [OF that, of p kept] by simp
      then show ?thesis using js(1) slot o Some by (intro exI [of _ "i # js"]) simp
    next
      case None
      obtain kept' where k: "drain_kept env ps r a1 (cbs @ cb) = ((r', a', cbs'), kept')" "kept = p # kept'"
        using "2.prems" slot o None by (auto split: prod.splits)
      from "2.IH"(1) [OF _ o [symmetric] _ refl k(1), of "Suc i" promoted] obtain js where
        js: "drain_pending_loop env (Suc i) ps r a1 (cbs @ cb) promoted = (r', a', cbs', promoted @ js)"
        "\<forall>pre. length pre = Suc i \<longrightarrow> foldl (\<lambda>ps i. vec_remove i ps) (pre @ ps) (rev js) = pre @ kept'"
        using slot None by auto
      have "foldl (\<lambda>ps i. vec_remove i ps) (pre @ p # ps) (rev js) = pre @ kept" if "length pre = i" for pre
        using js(2) [rule_format, of "pre @ [p]"] that k(2) by simp
      then show ?thesis using js(1) slot o None by (intro exI [of _ js]) simp
    qed
  qed
qed

lemma drain_pending_kept:
  assumes "rs_session r \<noteq> None" "drain_kept env (rs_pending r) r a [] = ((r', a', cbs'), kept)" "rs_pending r' = rs_pending r"
  shows "drain_pending env r a = (r'\<lparr>rs_pending := kept\<rparr>, a', cbs')"
proof -
  obtain js where js: "drain_pending_loop env 0 (rs_pending r) r a [] [] = (r', a', cbs', js)"
    "foldl (\<lambda>ps i. vec_remove i ps) (rs_pending r) (rev js) = kept"
    using drain_loop_kept [OF assms(2), of 0 "[]"] by auto
  then show ?thesis using assms(1,3) by (auto simp: drain_pending_def)
qed

definition opens :: "open_result \<Rightarrow> bool" where
  "opens res = (case res of Opened port \<Rightarrow> True | _ \<Rightarrow> False)"

lemma open_stream_opens:
  "opens res \<Longrightarrow> \<exists>h a' cbs. open_stream_on_session res p a = (Some h, a', cbs)"
  "\<not> opens res \<Longrightarrow> \<exists>a'. open_stream_on_session res p a = (None, a', [])"
  by (cases res; simp add: open_stream_on_session_def opens_def)+

text \<open>What \<open>drain_kept\<close> does, as an induction rule with one case per branch of the loop.\<close>

lemma drain_kept_induct [consumes 1, case_names empty full promoted failed]:
  assumes run: "drain_kept env ps r a cbs = ((r', a', cbs'), kept)"
    and "\<And>r. r = r' \<Longrightarrow> P [] r []"
    and "\<And>ps r. r = r' \<Longrightarrow> \<not> has_active_slot r \<Longrightarrow> P ps r ps"
    and "\<And>p ps r h kept. has_active_slot r \<Longrightarrow> opens (env (ps_uuid p)) \<Longrightarrow>
           P ps (r\<lparr>rs_active := map_insert (ps_uuid p) h (rs_active r)\<rparr>) kept \<Longrightarrow> P (p # ps) r kept"
    and "\<And>p ps r kept. has_active_slot r \<Longrightarrow> \<not> opens (env (ps_uuid p)) \<Longrightarrow> P ps r kept \<Longrightarrow> P (p # ps) r (p # kept)"
  shows "P ps r kept"
  using run
proof (induction ps arbitrary: r a cbs kept)
  case Nil
  then show ?case using assms(2) by simp
next
  case (Cons p ps)
  show ?case
  proof (cases "has_active_slot r")
    case False
    then show ?thesis using Cons.prems assms(3) by simp
  next
    case slot: True
    show ?thesis
    proof (cases "opens (env (ps_uuid p))")
      case True
      then obtain h a1 cb where "open_stream_on_session (env (ps_uuid p)) p a = (Some h, a1, cb)"
        using open_stream_opens(1) by blast
      then have "drain_kept env ps (r\<lparr>rs_active := map_insert (ps_uuid p) h (rs_active r)\<rparr>) a1 (cbs @ cb) = ((r', a', cbs'), kept)"
        using Cons.prems slot by simp
      then show ?thesis by (intro assms(4) [OF slot True] Cons.IH)
    next
      case False
      then obtain a1 where "open_stream_on_session (env (ps_uuid p)) p a = (None, a1, [])"
        using open_stream_opens(2) by blast
      then obtain kept' where "drain_kept env ps r a1 cbs = ((r', a', cbs'), kept')" "kept = p # kept'"
        using Cons.prems slot by (auto split: prod.splits)
      then show ?thesis using assms(5) [OF slot False Cons.IH] by simp
    qed
  qed
qed

lemma set_active_insert:
  fixes r :: remote_state shows "set (active_ids (r\<lparr>rs_active := map_insert u h (rs_active r)\<rparr>)) = insert u (set (active_ids r))"
  by (simp add: active_ids_def set_map_insert del: set_map)

lemma distinct_active_insert:
  fixes r :: remote_state shows "distinct (active_ids r) \<Longrightarrow> distinct (active_ids (r\<lparr>rs_active := map_insert u h (rs_active r)\<rparr>))"
  by (simp add: active_ids_def distinct_map_insert)

lemma drain_kept_frame:
  assumes "drain_kept env ps r a cbs = ((r', a', cbs'), kept)"
  shows "r' = r\<lparr>rs_active := rs_active r'\<rparr> \<and> subseq kept ps \<and>
     set (active_ids r') \<union> ps_uuid ` set kept = set (active_ids r) \<union> ps_uuid ` set ps"
  using assms
proof (induction rule: drain_kept_induct)
  case (promoted p ps r h kept)
  then have "r' = r\<lparr>rs_active := rs_active r'\<rparr>" by (cases r, cases r') simp
  then show ?case using promoted set_active_insert [of "ps_uuid p" h r] by auto
qed auto

lemma drain_kept_limit:
  assumes "drain_kept env ps r a cbs = ((r', a', cbs'), kept)"
  shows "within_limit r \<Longrightarrow> within_limit r'"
  using assms by (induction rule: drain_kept_induct) (auto simp: within_limit_insert)

lemma drain_kept_reason:
  assumes "drain_kept env ps r a cbs = ((r', a', cbs'), kept)"
  shows "\<forall>p \<in> set kept. \<not> opens (env (ps_uuid p)) \<or> \<not> has_active_slot r'"
  using assms by (induction rule: drain_kept_induct) auto

lemma drain_kept_opened:
  assumes "drain_kept env ps r a cbs = ((r', a', cbs'), kept)"
  shows "\<forall>u \<in> set (active_ids r') - set (active_ids r). opens (env u)"
  using assms by (induction rule: drain_kept_induct) (auto simp: set_active_insert)

lemma drain_kept_disjoint:
  assumes "drain_kept env ps r a cbs = ((r', a', cbs'), kept)"
  shows "distinct (map ps_uuid ps) \<Longrightarrow> distinct (active_ids r) \<Longrightarrow> set (active_ids r) \<inter> ps_uuid ` set ps = {} \<Longrightarrow>
    distinct (active_ids r') \<and> set (active_ids r') \<inter> ps_uuid ` set kept = {} \<and>
    set (active_ids r') \<subseteq> set (active_ids r) \<union> ps_uuid ` set ps"
  using assms
proof (induction rule: drain_kept_induct)
  case (promoted p ps r h kept)
  have "distinct (active_ids (r\<lparr>rs_active := map_insert (ps_uuid p) h (rs_active r)\<rparr>))"
    by (rule distinct_active_insert) (rule promoted)
  then show ?case using promoted by (auto simp: set_active_insert)
qed auto

lemma sorted_wrt_subseq_of: "subseq xs ys \<Longrightarrow> sorted_wrt R ys \<Longrightarrow> sorted_wrt R xs"
proof (induction rule: list_emb.induct)
  case (list_emb_Cons2 x y xs ys)
  then have "set xs \<subseteq> set ys" using list_emb_set by fastforce
  then show ?case using list_emb_Cons2 by auto
qed auto

lemma distinct_sorted_wrt: "distinct xs = sorted_wrt (\<noteq>) xs"
  by (induction xs) auto

lemma wf_remote_subqueue:
  assumes "wf_remote r" and "subseq kept (rs_pending r)" and "distinct (map fst act)"
    and "set (map fst act) \<inter> ps_uuid ` set kept = {}"
  shows "wf_remote (r\<lparr>rs_active := act, rs_pending := kept\<rparr>)"
proof -
  have "length kept \<le> length (rs_pending r)" using assms(2) list_emb_length by blast
  moreover have "pend.descending kept" using assms(1,2) unfolding wf_remote_def pend.descending_def
    by (metis sorted_wrt_subseq_of)
  moreover have "distinct (map ps_uuid kept)"
    using assms(1) subseq_map [OF assms(2), of ps_uuid] unfolding wf_remote_def pending_ids_def distinct_sorted_wrt
    by (metis sorted_wrt_subseq_of)
  ultimately show ?thesis using assms unfolding wf_remote_def by (auto simp: active_ids_def pending_ids_def)
qed

section \<open>Every operation keeps the invariant\<close>

definition remote_inv :: "remote_state \<Rightarrow> bool" where
  "remote_inv r \<longleftrightarrow> wf_remote r \<and> within_limit r"

definition sm_inv :: "session_manager \<Rightarrow> bool" where
  "sm_inv m \<longleftrightarrow> (case sm_remote m of None \<Rightarrow> True | Some r \<Rightarrow> remote_inv r)"

lemma sm_inv_Some [simp]: "sm_remote m = Some r \<Longrightarrow> sm_inv m = remote_inv r"
  by (simp add: sm_inv_def)

lemma sm_inv_None [simp]: "sm_remote m = None \<Longrightarrow> sm_inv m"
  by (simp add: sm_inv_def)

lemma within_limit_iff: "within_limit r \<longleftrightarrow> (\<forall>k. rs_max_concurrent r = Some k \<longrightarrow> length (rs_active r) \<le> k)"
  by (simp add: within_limit_def split: option.split)

lemma remote_inv_session [simp]: "remote_inv (r\<lparr>rs_session := s\<rparr>) = remote_inv r"
  by (simp add: remote_inv_def wf_remote_def within_limit_iff active_ids_def pending_ids_def)

lemma remote_inv_downlinks [simp]: "remote_inv (r\<lparr>rs_downlinks := d\<rparr>) = remote_inv r"
  by (simp add: remote_inv_def wf_remote_def within_limit_iff active_ids_def pending_ids_def)

lemma subseq_set_subset: "subseq xs ys \<Longrightarrow> set xs \<subseteq> set ys"
  by (induction rule: list_emb.induct) auto

text \<open>Losing active streams is harmless.\<close>

lemma remote_inv_fewer_active:
  assumes "remote_inv r" and "subseq (map fst act) (active_ids r)"
  shows "remote_inv (r\<lparr>rs_active := act\<rparr>)"
proof -
  have "sorted_wrt (\<noteq>) (active_ids r)" using assms(1) by (simp add: remote_inv_def wf_remote_def flip: distinct_sorted_wrt)
  then have d: "distinct (map fst act)" using sorted_wrt_subseq_of [OF assms(2)] by (simp add: distinct_sorted_wrt)
  have s: "set (map fst act) \<subseteq> set (active_ids r)" using assms(2) by (rule subseq_set_subset)
  have "wf_remote (r\<lparr>rs_active := act, rs_pending := rs_pending r\<rparr>)"
    using assms(1) d s by (intro wf_remote_subqueue) (auto simp: remote_inv_def wf_remote_def pending_ids_def)
  moreover have "length act \<le> length (rs_active r)" using list_emb_length [OF assms(2)] by (simp add: active_ids_def)
  then have "within_limit (r\<lparr>rs_active := act\<rparr>)" using assms(1)
    unfolding remote_inv_def within_limit_iff by auto
  ultimately show ?thesis by (simp add: remote_inv_def)
qed

lemma remote_inv_drain:
  assumes "remote_inv r" and "drain_pending env r a = (r', a', cbs)"
  shows "remote_inv r'"
proof (cases "rs_session r")
  case None
  then show ?thesis using assms by (simp add: drain_pending_def)
next
  case (Some s)
  obtain r1 a1 cbs1 kept where k: "drain_kept env (rs_pending r) r a [] = ((r1, a1, cbs1), kept)" by (metis prod.exhaust)
  note f = drain_kept_frame [OF k]
  have "drain_pending env r a = (r1\<lparr>rs_pending := kept\<rparr>, a1, cbs1)" using drain_pending_kept [OF _ k] Some f
    by (metis option.distinct(1) remote_state.select_convs(2) remote_state.surjective remote_state.update_convs(5))
  then have r': "r' = r\<lparr>rs_active := rs_active r1, rs_pending := kept\<rparr>" using assms(2) f by (metis prod.inject)
  have "wf_remote r'" unfolding r' using assms(1) f drain_kept_disjoint [OF k]
    by (intro wf_remote_subqueue) (auto simp: remote_inv_def wf_remote_def pending_ids_def active_ids_def)
  moreover have "within_limit r1" using drain_kept_limit [OF k] assms(1) by (simp add: remote_inv_def)
  then have "within_limit r'" unfolding r' using f by (cases r, cases r1) (auto simp: within_limit_iff)
  ultimately show ?thesis by (simp add: remote_inv_def)
qed

lemma fst_map_insert_image: "fst ` set (map_insert u v m) = insert u (fst ` set m)"
  using set_map_insert [of u v m] by simp

lemma remote_inv_promote:
  assumes "remote_inv r" and "promote_pending env r a = (r', a', cbs)"
  shows "remote_inv r'"
proof -
  have "r' = r \<or> (\<exists>p ps h. rs_pending r = p # ps \<and> has_active_slot r \<and>
      r' = r\<lparr>rs_active := map_insert (ps_uuid p) h (rs_active r), rs_pending := ps\<rparr>)"
    using assms(2) by (auto simp: promote_pending_def split: list.splits if_splits prod.splits option.splits)
  then show ?thesis
  proof (elim disjE exE conjE)
    fix p ps h
    assume *: "rs_pending r = p # ps" "has_active_slot r" and r': "r' = r\<lparr>rs_active := map_insert (ps_uuid p) h (rs_active r), rs_pending := ps\<rparr>"
    have "wf_remote r'" unfolding r' using * assms(1)
      by (intro wf_remote_subqueue)
         (auto simp: remote_inv_def wf_remote_def pending_ids_def active_ids_def distinct_map_insert fst_map_insert_image)
    moreover have "within_limit r'" using within_limit_insert [OF *(2)] by (simp add: r' within_limit_iff)
    ultimately show ?thesis by (simp add: remote_inv_def)
  qed (use assms in simp)
qed

lemma sm_inv_refill: "remote_inv r \<Longrightarrow> sm_inv (refill env r m)"
  by (cases "promote_pending env r (sm_arl m)") (auto simp: refill_def dest: remote_inv_promote)

lemma restore_active_ids: "subseq (active_ids (restore_active env r)) (active_ids r)"
proof (cases "rs_session r")
  case (Some s)
  have kept: "subseq (map fst (List.map_filter (\<lambda>(u, h). case f u h of None \<Rightarrow> None | Some h' \<Rightarrow> Some (u, h')) xs)) (map fst xs)"
    for f :: "uuid \<Rightarrow> uplink_handle \<Rightarrow> uplink_handle option" and xs
    by (induction xs) (auto simp: List.map_filter_simps split: option.splits)
  have alive: "subseq (map fst (filter Q xs)) (map fst xs)" for Q and xs :: "(uuid \<times> uplink_handle) list"
    by (intro subseq_map) simp
  show ?thesis
    using subseq_order.trans [OF alive kept [of "\<lambda>u. restore_one (fst (env u)) (snd (env u))"]] Some
    by (simp add: restore_active_def active_ids_def Let_def)
qed (simp add: restore_active_def)

lemma restore_active_frame: "restore_active env r = r\<lparr>rs_active := rs_active (restore_active env r)\<rparr>"
  by (simp add: restore_active_def split: option.splits)

lemma remote_inv_restore: "remote_inv r \<Longrightarrow> remote_inv (restore_active env r)"
  by (subst restore_active_frame)
     (rule remote_inv_fewer_active, assumption, use restore_active_ids [of env r] in \<open>simp add: active_ids_def\<close>)


lemma on_link_state_remote:
  assumes "sm_remote m = Some r"
  shows "on_link_state renv env s Failed m =
    (let r1 = restore_active renv (r\<lparr>rs_session := Some s\<rparr>); (r2, a, cbs) = drain_pending env r1 (sm_arl m)
     in m\<lparr>sm_link_state := Normal, sm_remote := Some r2, sm_arl := arl_set_session s a,
          sm_callbacks := sm_callbacks m @ cbs, sm_restored := Suc (sm_restored m)\<rparr>)"
  using assms by (simp add: on_link_state_def on_link_failed_def Let_def split: prod.splits)

lemma sm_inv_link_state:
  assumes "sm_inv m"
  shows "sm_inv (on_link_state renv env s st m)"
proof (cases "st = Failed")
  case True
  show ?thesis
  proof (cases "sm_remote m")
    case None
    then show ?thesis using True by (simp add: on_link_state_def on_link_failed_def Let_def)
  next
    case (Some r)
    obtain r2 a cbs where d: "drain_pending env (restore_active renv (r\<lparr>rs_session := Some s\<rparr>)) (sm_arl m) = (r2, a, cbs)"
      by (metis prod.exhaust)
    have "remote_inv r2" using remote_inv_drain [OF remote_inv_restore d] assms Some by simp
    then show ?thesis using True Some d by (simp add: on_link_state_remote)
  qed
qed (use assms in \<open>simp add: on_link_state_def sm_inv_def\<close>)

lemma sm_inv_accept:
  assumes "sm_inv m"
  shows "sm_inv (accept_open port stream open m)"
  using assms by (cases "sm_remote m"; cases "open"; cases port)
    (auto simp: accept_open_def sm_inv_def Let_def split: option.splits)

lemma sm_inv_accept_turn:
  assumes "sm_inv m"
  shows "sm_inv (snd (accept_turn from_new from_reconnect accept_stream spawn_port m))"
  using assms sm_inv_accept [OF assms]
  by (auto simp: accept_turn_def split: option.splits sum.splits) (simp_all add: sm_inv_def)

lemma remote_inv_link_down:
  assumes "remote_inv r"
  shows "remote_inv (r\<lparr>rs_active := map (\<lambda>(u, h). (u, notify_link_down h)) (rs_active r)\<rparr>)"
proof -
  have "map fst (map (\<lambda>(u, h). (u, notify_link_down h)) xs) = map fst xs" for xs :: "(uuid \<times> uplink_handle) list"
    by (induction xs) auto
  then show ?thesis using assms by (intro remote_inv_fewer_active) (simp_all add: active_ids_def del: map_map)
qed

lemma sm_inv_link_enable: "sm_inv m \<Longrightarrow> sm_inv (link_enable b m)"
  using remote_inv_link_down by (auto simp: link_enable_def sm_inv_def split: option.splits)

lemma remote_inv_start:
  assumes "remote_inv r" "fresh_stream p r" "sm_remote m = Some r" "on_stream_start res p m = (resp, m')"
  shows "\<exists>r'. sm_remote m' = Some r' \<and> remote_inv r'"
proof -
  obtain pos r1 where e: "enqueue p r = (pos, r1)" by (metis prod.exhaust)
  have e_inv: "remote_inv r1" if "\<not> pending_queue_full r"
    using wf_enqueue [OF _ assms(2) that e] assms(1) e
    by (auto simp: remote_inv_def within_limit_iff enqueue_def Let_def)
  have a_inv: "remote_inv (r\<lparr>rs_active := map_insert (ps_uuid p) h (rs_active r)\<rparr>)" if "has_active_slot r" for h
    using assms(1,2) wf_activate [of r "ps_uuid p" h] within_limit_insert [OF that] by (auto simp: remote_inv_def fresh_stream_def)
  show ?thesis using assms(3,4) e a_inv e_inv assms(1)
    by (auto simp: on_stream_start_def split: prod.splits if_splits option.splits)
qed

section \<open>Runs of the session manager\<close>

text \<open>A client may start a stream whose identifier is not in use (the agent draws them at random), and
  the test hook may set a limit the running streams respect; any other command is unconstrained.\<close>

definition admissible :: "session_command \<Rightarrow> session_manager \<Rightarrow> bool" where
  "admissible cmd m \<longleftrightarrow>
     (case sm_remote m of None \<Rightarrow> True | Some r \<Rightarrow>
       (case cmd of
          CmdStreamStart p \<Rightarrow> fresh_stream p r
        | CmdSetMaxConcurrent new_limit \<Rightarrow> within_limit (r\<lparr>rs_max_concurrent := new_limit\<rparr>)
        | _ \<Rightarrow> True))"

inductive sm_step :: "session_manager \<Rightarrow> session_manager \<Rightarrow> bool" where
  Command: "admissible cmd m \<Longrightarrow> sm_step m (snd (dispatch_cmd parse_str stats env cmd m))"
| Link: "sm_step m (on_link_state renv env new_session new_state m)"
| Accept: "sm_step m (snd (accept_turn from_new from_reconnect accept_stream spawn_port m))"

lemma remote_inv_remove: "remote_inv r \<Longrightarrow> remote_inv (r\<lparr>rs_active := map_remove u (rs_active r)\<rparr>)"
  by (rule remote_inv_fewer_active) (simp_all add: active_ids_def)

lemma sm_inv_dispatch:
  assumes "sm_inv m" "admissible cmd m"
  shows "sm_inv (snd (dispatch_cmd parse_str stats env cmd m))"
proof (cases "sm_remote m")
  case None
  then show ?thesis by (cases cmd) (simp_all add: dispatch_cmd_def on_stream_start_def link_enable_def split: option.splits)
next
  case (Some r)
  then have inv: "remote_inv r" using assms(1) by simp
  show ?thesis
  proof (cases cmd)
    case (CmdStreamStart p)
    obtain resp m' where s: "on_stream_start (env (ps_uuid p)) p m = (resp, m')" by (metis prod.exhaust)
    obtain r' where "sm_remote m' = Some r'" "remote_inv r'"
      using remote_inv_start [OF inv _ Some s] assms(2) CmdStreamStart Some by (auto simp: admissible_def)
    then show ?thesis using CmdStreamStart s by (simp add: dispatch_cmd_def)
  next
    case (CmdSetMaxConcurrent l)
    have "remote_inv (r\<lparr>rs_max_concurrent := l\<rparr>)" using inv assms(2) CmdSetMaxConcurrent Some
      by (simp add: admissible_def remote_inv_def wf_remote_def active_ids_def pending_ids_def)
    then show ?thesis using CmdSetMaxConcurrent Some by (simp add: dispatch_cmd_def sm_inv_refill)
  qed (use inv assms(1) Some in \<open>auto simp: dispatch_cmd_def intro!: sm_inv_refill sm_inv_link_enable remote_inv_remove split: option.splits\<close>)
qed

lemma sm_inv_step: "sm_step m m' \<Longrightarrow> sm_inv m \<Longrightarrow> sm_inv m'"
  by (induction rule: sm_step.induct) (auto intro: sm_inv_dispatch sm_inv_link_state sm_inv_accept_turn)

lemma sm_inv_new:
  assumes "sm_new session bw mc mp ls = Some m"
  shows "sm_inv m"
  using assms by (auto simp: sm_new_def rs_new_def sm_inv_def remote_inv_def wf_remote_def within_limit_iff
      active_ids_def pending_ids_def pend.descending_def split: option.splits if_splits)

section \<open>Properties\<close>





text \<open>C10 (liveness): recovery. After a link failure the manager has a live session again, every stream that was
  pending is still pending, in the same order, or active; a stream that became active did open on the
  new session; and one that is still pending either did not open or there is no free slot.\<close>

theorem recovery_drains_queue:
  assumes "sm_remote m = Some r" and "on_link_state renv env s Failed m = m'"
  shows "\<exists>r'. sm_remote m' = Some r' \<and> rs_session r' = Some s \<and> sm_link_state m' = Normal \<and>
    subseq (rs_pending r') (rs_pending r) \<and>
    set (pending_ids r) \<subseteq> set (pending_ids r') \<union> set (active_ids r') \<and>
    (\<forall>u \<in> set (active_ids r') - set (active_ids r). opens (env u)) \<and>
    (\<forall>p \<in> set (rs_pending r'). \<not> opens (env (ps_uuid p)) \<or> \<not> has_active_slot r')"
proof -
  define r1 where "r1 = restore_active renv (r\<lparr>rs_session := Some s\<rparr>)"
  have f1: "rs_session r1 = Some s" "rs_pending r1 = rs_pending r"
    unfolding r1_def by (simp_all add: restore_active_def Let_def)
  have sub: "set (active_ids r1) \<subseteq> set (active_ids r)"
    using subseq_set_subset [OF restore_active_ids [of renv "r\<lparr>rs_session := Some s\<rparr>"]] by (simp add: r1_def active_ids_def)
  obtain r2 a2 cbs2 kept where k: "drain_kept env (rs_pending r1) r1 (sm_arl m) [] = ((r2, a2, cbs2), kept)" by (metis prod.exhaust)
  note f = drain_kept_frame [OF k]
  have p2: "rs_pending r2 = rs_pending r1" "rs_session r2 = Some s" using f f1 by (cases r1, cases r2, simp)+
  have d: "drain_pending env r1 (sm_arl m) = (r2\<lparr>rs_pending := kept\<rparr>, a2, cbs2)"
    using drain_pending_kept [OF _ k p2(1)] f1 by simp
  have m': "sm_remote m' = Some (r2\<lparr>rs_pending := kept\<rparr>)" "sm_link_state m' = Normal"
    using assms d by (auto simp: on_link_state_remote Let_def r1_def)
  have "has_active_slot (r2\<lparr>rs_pending := kept\<rparr>) = has_active_slot r2" by (simp add: has_active_slot_def split: option.split)
  moreover have "\<forall>u \<in> set (active_ids r2) - set (active_ids r). opens (env u)" using drain_kept_opened [OF k] sub by blast
  ultimately show ?thesis using m' p2 f f1 sub drain_kept_reason [OF k]
    by (auto simp: pending_ids_def active_ids_def)
qed

theorem recovery_drains_queue_witness:
  "let q = (\<lambda>u k. \<lparr>ps_uuid = u, ps_info = \<lparr>size_bytes = None, attrs = Map.empty\<rparr>, ps_priority = Priority k\<rparr>);
       r = \<lparr>rs_session = None, rs_pending = [q 1 9, q 2 4], rs_max_concurrent = Some 1, rs_max_pending = 3, rs_active = [], rs_downlinks = []\<rparr>;
       m = (the (sm_new 0 None 1 10 Normal))\<lparr>sm_remote := Some r\<rparr>
   in \<exists>r'. sm_remote (on_link_state (\<lambda>_. (True, True)) (\<lambda>u. if u = 1 then OpenFailed else Opened 5) 7 Failed m) = Some r' \<and> rs_session r' = Some 7"
  unfolding Let_def
  using recovery_drains_queue [OF _ refl, of
     "(the (sm_new 0 None 1 10 Normal))\<lparr>sm_remote := Some \<lparr>rs_session = None,
        rs_pending = [\<lparr>ps_uuid = 1, ps_info = \<lparr>size_bytes = None, attrs = Map.empty\<rparr>, ps_priority = Priority 9\<rparr>,
                      \<lparr>ps_uuid = 2, ps_info = \<lparr>size_bytes = None, attrs = Map.empty\<rparr>, ps_priority = Priority 4\<rparr>],
        rs_max_concurrent = Some 1, rs_max_pending = 3, rs_active = [], rs_downlinks = []\<rparr>\<rparr>" _
     "\<lambda>_. (True, True)" "\<lambda>u. if u = 1 then OpenFailed else Opened 5" 7]
  by auto

lemma backoff_doubles: "min (min (2 ^ k) 30 * 2) MAX_BACKOFF = min (2 ^ Suc k) (30 :: nat)"
  by (simp add: MAX_BACKOFF_def min_def)

lemma reconnect_loop_failures:
  "\<forall>net \<in> set nets. \<exists>e. try_connect net cfg = (Inl e, cfg) \<Longrightarrow> try_connect net cfg = (Inr s, cfg') \<Longrightarrow>
   reconnect_loop (min (2 ^ k) 30) (nets @ net # rest) cfg =
     Some (s, map (\<lambda>i. min (2 ^ i) 30) [k..<k + length nets], cfg')"
proof (induction nets arbitrary: k)
  case (Cons n nets)
  then obtain e where "try_connect n cfg = (Inl e, cfg)" by auto
  moreover have "[k..<k + length (n # nets)] = k # [Suc k..<Suc k + length nets]" by (simp add: upt_conv_Cons del: upt.simps)
  ultimately show ?case using Cons.IH [of "Suc k"] Cons.prems by (simp only: append_Cons reconnect_loop.simps backoff_doubles) simp
qed simp

text \<open>C25 (termination): reconnecting. When the first attempts fail and a later one succeeds the loop ends with that
  session, having paused 1, 2, 4, 8, 16 and then 30 seconds after the failures.\<close>

theorem reconnect_backoff:
  assumes "\<forall>net \<in> set nets. \<exists>e. try_connect net cfg = (Inl e, cfg)" and "try_connect net cfg = (Inr s, cfg')"
  shows "reconnect_loop 1 (nets @ net # rest) cfg = Some (s, map (\<lambda>i. min (2 ^ i) 30) [0..<length nets], cfg')"
  using reconnect_loop_failures [OF assms, of 0 rest] by simp

theorem reconnect_backoff_witness:
  "let up = \<lparr>lookup_host = (\<lambda>_. Inr [1]), client_new = (\<lambda>_ _ _. Inr 2), connect_to = (\<lambda>_ _. Inr 9)\<rparr>;
       down = up\<lparr>connect_to := (\<lambda>_ _. Inl ''timed out'')\<rparr>
   in reconnect_loop 1 (replicate 6 down @ [up]) (Client ''peer'' ''quelay'' [] Bbr) =
      Some (9, [1, 2, 4, 8, 16, 30], Client ''peer'' ''quelay'' [] Bbr)"
  unfolding Let_def
  by (subst reconnect_backoff [where s = 9 and cfg' = "Client ''peer'' ''quelay'' [] Bbr"])
     (simp_all add: try_connect_def upt_rec)

end
