(* ===== verification/Control_Plane.thy ===== *)
theory Control_Plane
  imports Session_Manager
begin

text \<open>
  The control plane: the startup configuration (quelay-agent/src/config.rs, the settings and
  \<open>validate\<close>), the handlers of the Thrift service (thrift_srv.rs) and the agent loop (agent.rs) that
  passes their commands to the session manager.

  A handler runs on a thread of the Thrift server. It puts a command in the agent's channel and may
  block on the reply; the agent loop and the session manager are tasks of their own. The state has
  both channels, so that the three can be interleaved; a channel's capacity delays the sender and has
  no other effect. \<open>Uuid::parse_str\<close> is an argument. \<open>ct_dispatched\<close> is the history of commands the
  session manager took, and \<open>ct_replies\<close> what it answered, in order.
\<close>

section \<open>Configuration\<close>

definition DEFAULT_CHUNK_SIZE_BYTES :: nat where "DEFAULT_CHUNK_SIZE_BYTES = 16 * 1024"
definition DEFAULT_SPOOL_CAPACITY_BYTES :: nat where "DEFAULT_SPOOL_CAPACITY_BYTES = 1024 * 1024"
definition DEFAULT_MAX_CONCURRENT :: nat where "DEFAULT_MAX_CONCURRENT = 0"
definition DEFAULT_MAX_PENDING :: nat where "DEFAULT_MAX_PENDING = 100"

record config =
  cf_bw_cap_bps :: "nat option"
  cf_chunk_size_bytes :: nat
  cf_spool_capacity_bytes :: nat
  cf_max_concurrent :: nat
  cf_max_pending :: nat
  cf_congestion :: congestion_algo

definition config_validate :: "config \<Rightarrow> string + unit" where
  "config_validate cfg =
     (if cf_chunk_size_bytes cfg = 0 \<or> 65535 < cf_chunk_size_bytes cfg
      then Inl ''--chunk-size-bytes must be 1..=65535''
      else if cf_spool_capacity_bytes cfg = 0 then Inl ''--spool-capacity-bytes must be > 0''
      else Inr ())"

record runtime_config =
  rc_bw_cap_bps :: nat
  rc_chunk_size_bytes :: nat
  rc_max_concurrent :: nat

definition runtime_config_new :: "nat \<Rightarrow> nat \<Rightarrow> nat \<Rightarrow> runtime_config" where
  "runtime_config_new bw_cap_bps chunk_size_bytes max_concurrent =
     \<lparr>rc_bw_cap_bps = bw_cap_bps, rc_chunk_size_bytes = chunk_size_bytes, rc_max_concurrent = max_concurrent\<rparr>"

section \<open>Commands\<close>

datatype agent_cmd =
    AgStreamStart uuid stream_info priority
  | AgGetConnStats
  | AgLinkEnable bool
  | AgSetMaxConcurrent nat

text \<open>The match of \<open>Agent::run\<close>.\<close>

fun agent_forward :: "agent_cmd \<Rightarrow> session_command" where
  "agent_forward (AgStreamStart u info p) = CmdStreamStart \<lparr>ps_uuid = u, ps_info = info, ps_priority = p\<rparr>"
| "agent_forward AgGetConnStats = CmdGetConnStats"
| "agent_forward (AgLinkEnable enabled) = CmdLinkEnable enabled"
| "agent_forward (AgSetMaxConcurrent n) = CmdSetMaxConcurrent (if n = 0 then None else Some n)"

section \<open>Handlers\<close>

record control =
  ct_cfg :: runtime_config
  ct_poisoned :: bool
  ct_agent_open :: bool
  ct_agent_q :: "agent_cmd list"
  ct_sm_q :: "session_command list"
  ct_sm :: session_manager
  ct_dispatched :: "session_command list"
  ct_replies :: "session_reply list"
  ct_cb_open :: bool
  ct_cb_q :: "callback_cmd list"

datatype thrift_error = InternalError string | InvalidTransform string

definition lock_runtime_cfg :: "control \<Rightarrow> thrift_error + runtime_config" where
  "lock_runtime_cfg c = (if ct_poisoned c then Inl (InternalError ''runtime_cfg lock poisoned'') else Inr (ct_cfg c))"

definition send_cmd :: "agent_cmd \<Rightarrow> control \<Rightarrow> (thrift_error + unit) \<times> control" where
  "send_cmd cmd c =
     (if ct_agent_open c then (Inr (), c\<lparr>ct_agent_q := ct_agent_q c @ [cmd]\<rparr>)
      else (Inl (InternalError ''agent loop has shut down''), c))"

definition send_callback_cmd :: "callback_cmd \<Rightarrow> control \<Rightarrow> (thrift_error + unit) \<times> control" where
  "send_callback_cmd cmd c =
     (if ct_cb_open c then (Inr (), c\<lparr>ct_cb_q := ct_cb_q c @ [cmd]\<rparr>)
      else (Inl (InternalError ''callback channel closed''), c))"

text \<open>\<open>handle_stream_start\<close> up to the blocking wait, and what it returns once the reply (or the loss of
  its channel) is there.\<close>

definition handle_stream_start :: "(string \<Rightarrow> uuid option) \<Rightarrow> string \<Rightarrow> wire_stream_info \<Rightarrow> 8 word \<Rightarrow> control \<Rightarrow>
    (thrift_error + unit) \<times> control" where
  "handle_stream_start parse_str uuid_str info priority c =
     (case parse_str uuid_str of
        None \<Rightarrow> (Inl (InvalidTransform ''thrift_srv: Invalid UUID''), c)
      | Some u \<Rightarrow>
          let domain_info = \<lparr>size_bytes = map_option as_u64 (w_size_bytes info), attrs = unwrap_or (w_attrs info) Map.empty\<rparr>
          in send_cmd (AgStreamStart u domain_info (from_i8 priority)) c)"

record wire_start_return =
  wr_status :: "start_status option"
  wr_queue_position :: "int option"

fun stream_start_return :: "session_reply option \<Rightarrow> thrift_error + wire_start_return" where
  "stream_start_return (Some (StartReply r)) = Inr \<lparr>wr_status = Some (sr_status r), wr_queue_position = sr_queue_position r\<rparr>"
| "stream_start_return _ = Inl (InternalError ''stream_start reply channel dropped'')"

definition handle_set_callback :: "string \<Rightarrow> control \<Rightarrow> (thrift_error + string) \<times> control" where
  "handle_set_callback endpoint c =
     (case send_callback_cmd (Register endpoint) c of
        (Inl e, c') \<Rightarrow> (Inl e, c')
      | (Inr _, c') \<Rightarrow> (Inr [], c'))"

definition handle_get_link_state :: "control \<Rightarrow> wire_link_state" where
  "handle_get_link_state c =
     (case sm_link_state (ct_sm c) of
        Connecting \<Rightarrow> CONNECTING | Normal \<Rightarrow> NORMAL | Degraded \<Rightarrow> DEGRADED | Failed \<Rightarrow> FAILED)"

definition handle_get_bandwidth_cap_bps :: "control \<Rightarrow> thrift_error + int" where
  "handle_get_bandwidth_cap_bps c =
     (case lock_runtime_cfg c of Inl e \<Rightarrow> Inl e | Inr cfg \<Rightarrow> Inr (as_i64 (rc_bw_cap_bps cfg)))"

definition handle_get_conn_stats :: "control \<Rightarrow> (thrift_error + unit) \<times> control" where
  "handle_get_conn_stats c = send_cmd AgGetConnStats c"

fun conn_stats_return :: "session_reply option \<Rightarrow> thrift_error + wire_conn_stats" where
  "conn_stats_return (Some (StatsReply s)) = Inr (conn_stats_to_wire s)"
| "conn_stats_return _ = Inl (InternalError ''get_conn_stats: session manager dropped reply channel'')"

text \<open>The test hooks, as built with the \<open>test-hooks\<close> feature. An i32 cast to usize is sign-extended.\<close>

definition handle_link_enable :: "bool \<Rightarrow> control \<Rightarrow> (thrift_error + unit) \<times> control" where
  "handle_link_enable enabled c = send_cmd (AgLinkEnable enabled) c"

definition handle_set_max_concurrent :: "int \<Rightarrow> control \<Rightarrow> (thrift_error + unit) \<times> control" where
  "handle_set_max_concurrent i c =
     (let n = as_u64 i
      in case lock_runtime_cfg c of
           Inl e \<Rightarrow> (Inl e, c)
         | Inr cfg \<Rightarrow>
             send_cmd (AgSetMaxConcurrent n)
               (c\<lparr>ct_cfg := cfg\<lparr>rc_max_concurrent := (if n = 0 then DEFAULT_MAX_CONCURRENT else n)\<rparr>\<rparr>))"

definition handle_set_chunk_size_bytes :: "int \<Rightarrow> control \<Rightarrow> (thrift_error + unit) \<times> control" where
  "handle_set_chunk_size_bytes i c =
     (let requested = as_u64 i;
          effective = (if requested = 0 then DEFAULT_CHUNK_SIZE_BYTES else requested)
      in if 65535 < effective then (Inl (InvalidTransform ''chunk_size_bytes exceeds u16 max (65535)''), c)
         else case lock_runtime_cfg c of
                Inl e \<Rightarrow> (Inl e, c)
              | Inr cfg \<Rightarrow> (Inr (), c\<lparr>ct_cfg := cfg\<lparr>rc_chunk_size_bytes := effective\<rparr>\<rparr>))"

section \<open>The tasks\<close>

text \<open>A turn of the agent loop, and of the session manager's loop on a command. When the latter's
  channel has nothing in it, the task waits.\<close>

definition agent_turn :: "control \<Rightarrow> control" where
  "agent_turn c =
     (case ct_agent_q c of
        [] \<Rightarrow> c
      | cmd # q \<Rightarrow> c\<lparr>ct_agent_q := q, ct_sm_q := ct_sm_q c @ [agent_forward cmd]\<rparr>)"

definition manager_turn :: "(string \<Rightarrow> uuid option) \<Rightarrow> (nat \<Rightarrow> conn_stats) \<Rightarrow> (uuid \<Rightarrow> open_result) \<Rightarrow> control \<Rightarrow> control" where
  "manager_turn parse_str stats env c =
     (case ct_sm_q c of
        [] \<Rightarrow> c
      | cmd # q \<Rightarrow>
          let (reply, m) = dispatch_cmd parse_str stats env cmd (ct_sm c)
          in c\<lparr>ct_sm_q := q, ct_sm := m, ct_dispatched := ct_dispatched c @ [cmd], ct_replies := ct_replies c @ [reply]\<rparr>)"

text \<open>\<open>main\<close>: the parts as they are put together, the link state starting as \<open>Connecting\<close>.\<close>

definition control_new :: "config \<Rightarrow> nat \<Rightarrow> control option" where
  "control_new cfg session =
     (case config_validate cfg of
        Inl e \<Rightarrow> None
      | Inr _ \<Rightarrow>
          (case sm_new session (cf_bw_cap_bps cfg) (cf_max_concurrent cfg) (cf_max_pending cfg) Connecting of
             None \<Rightarrow> None
           | Some m \<Rightarrow> Some \<lparr>
               ct_cfg = runtime_config_new (unwrap_or (cf_bw_cap_bps cfg) 0) (cf_chunk_size_bytes cfg) (cf_max_concurrent cfg),
               ct_poisoned = False, ct_agent_open = True, ct_agent_q = [], ct_sm_q = [], ct_sm = m,
               ct_dispatched = [], ct_replies = [], ct_cb_open = True, ct_cb_q = []\<rparr>))"

section \<open>Interleavings\<close>

text \<open>Calls of the client, turns of the two tasks, and the \<open>StreamFinished\<close> an ack task sends straight
  to the session manager.\<close>

datatype client_call =
    CallStreamStart string wire_stream_info "8 word"
  | CallSetCallback string
  | CallGetConnStats
  | CallLinkEnable bool
  | CallSetMaxConcurrent int
  | CallSetChunkSizeBytes int

fun do_call :: "(string \<Rightarrow> uuid option) \<Rightarrow> client_call \<Rightarrow> control \<Rightarrow> control" where
  "do_call parse_str (CallStreamStart s info p) c = snd (handle_stream_start parse_str s info p c)"
| "do_call parse_str (CallSetCallback e) c = snd (handle_set_callback e c)"
| "do_call parse_str CallGetConnStats c = snd (handle_get_conn_stats c)"
| "do_call parse_str (CallLinkEnable b) c = snd (handle_link_enable b c)"
| "do_call parse_str (CallSetMaxConcurrent i) c = snd (handle_set_max_concurrent i c)"
| "do_call parse_str (CallSetChunkSizeBytes i) c = snd (handle_set_chunk_size_bytes i c)"

datatype control_event = Call client_call | AgentTurn | ManagerTurn | StreamFinished string

fun control_step :: "(string \<Rightarrow> uuid option) \<Rightarrow> (nat \<Rightarrow> conn_stats) \<Rightarrow> (uuid \<Rightarrow> open_result) \<Rightarrow>
    control_event \<Rightarrow> control \<Rightarrow> control" where
  "control_step parse_str stats env (Call cc) c = do_call parse_str cc c"
| "control_step parse_str stats env AgentTurn c = agent_turn c"
| "control_step parse_str stats env ManagerTurn c = manager_turn parse_str stats env c"
| "control_step parse_str stats env (StreamFinished s) c = c\<lparr>ct_sm_q := ct_sm_q c @ [CmdStreamFinished s]\<rparr>"

definition control_run :: "(string \<Rightarrow> uuid option) \<Rightarrow> (nat \<Rightarrow> conn_stats) \<Rightarrow> (uuid \<Rightarrow> open_result) \<Rightarrow>
    control_event list \<Rightarrow> control \<Rightarrow> control" where
  "control_run parse_str stats env evs c = foldl (\<lambda>c ev. control_step parse_str stats env ev c) c evs"

section \<open>Properties\<close>

text \<open>What a call asks of the session manager.\<close>

fun issues :: "(string \<Rightarrow> uuid option) \<Rightarrow> client_call \<Rightarrow> session_command list" where
  "issues parse_str (CallStreamStart s info p) =
     (case parse_str s of None \<Rightarrow> []
      | Some u \<Rightarrow> [CmdStreamStart \<lparr>ps_uuid = u, ps_info = stream_info_from_wire info, ps_priority = Priority p\<rparr>])"
| "issues parse_str (CallSetCallback e) = []"
| "issues parse_str CallGetConnStats = [CmdGetConnStats]"
| "issues parse_str (CallLinkEnable b) = [CmdLinkEnable b]"
| "issues parse_str (CallSetMaxConcurrent i) = [CmdSetMaxConcurrent (if as_u64 i = 0 then None else Some (as_u64 i))]"
| "issues parse_str (CallSetChunkSizeBytes i) = []"

fun event_issues :: "(string \<Rightarrow> uuid option) \<Rightarrow> control_event \<Rightarrow> session_command list" where
  "event_issues parse_str (Call cc) = issues parse_str cc"
| "event_issues parse_str _ = []"

fun event_finishes :: "control_event \<Rightarrow> session_command list" where
  "event_finishes (StreamFinished s) = [CmdStreamFinished s]"
| "event_finishes _ = []"

definition is_finish :: "session_command \<Rightarrow> bool" where
  "is_finish cmd = (case cmd of CmdStreamFinished s \<Rightarrow> True | _ \<Rightarrow> False)"

definition serving :: "control \<Rightarrow> bool" where
  "serving c \<longleftrightarrow> ct_agent_open c \<and> \<not> ct_poisoned c"

text \<open>The commands of the clients, and of the ack tasks, that a state still has to do or has done.\<close>

definition client_log :: "control \<Rightarrow> session_command list" where
  "client_log c = filter (\<lambda>cmd. \<not> is_finish cmd) (ct_dispatched c @ ct_sm_q c) @ map agent_forward (ct_agent_q c)"

definition finish_log :: "control \<Rightarrow> session_command list" where
  "finish_log c = filter is_finish (ct_dispatched c @ ct_sm_q c)"

lemma is_finish_forward [simp]: "\<not> is_finish (agent_forward cmd)"
  by (cases cmd) (simp_all add: is_finish_def)

lemmas handler_defs = handle_stream_start_def handle_set_callback_def handle_get_conn_stats_def handle_link_enable_def
  handle_set_max_concurrent_def handle_set_chunk_size_bytes_def send_cmd_def send_callback_cmd_def lock_runtime_cfg_def

lemma do_call_effect:
  assumes "serving c"
  shows "serving (do_call parse_str cc c) \<and> ct_sm (do_call parse_str cc c) = ct_sm c \<and>
    ct_dispatched (do_call parse_str cc c) = ct_dispatched c \<and>
    client_log (do_call parse_str cc c) = client_log c @ issues parse_str cc \<and> finish_log (do_call parse_str cc c) = finish_log c"
  using assms by (cases cc) (auto simp: handler_defs serving_def client_log_def finish_log_def stream_info_from_wire_def
      from_i8_def Let_def split: option.splits)

lemma agent_turn_effect:
  "serving (agent_turn c) = serving c \<and> ct_sm (agent_turn c) = ct_sm c \<and> ct_dispatched (agent_turn c) = ct_dispatched c \<and>
   client_log (agent_turn c) = client_log c \<and> finish_log (agent_turn c) = finish_log c"
  by (auto simp: agent_turn_def serving_def client_log_def finish_log_def split: list.splits)

definition manager_after :: "(string \<Rightarrow> uuid option) \<Rightarrow> (nat \<Rightarrow> conn_stats) \<Rightarrow> (uuid \<Rightarrow> open_result) \<Rightarrow>
    session_command list \<Rightarrow> session_manager \<Rightarrow> session_manager" where
  "manager_after parse_str stats env cmds m = foldl (\<lambda>m cmd. snd (dispatch_cmd parse_str stats env cmd m)) m cmds"

lemma manager_after_append [simp]:
  "manager_after parse_str stats env (xs @ ys) m = manager_after parse_str stats env ys (manager_after parse_str stats env xs m)"
  by (simp add: manager_after_def)

lemma manager_turn_effect:
  "serving (manager_turn parse_str stats env c) = serving c \<and>
   client_log (manager_turn parse_str stats env c) = client_log c \<and> finish_log (manager_turn parse_str stats env c) = finish_log c \<and>
   (ct_sm c = manager_after parse_str stats env (ct_dispatched c) m0 \<longrightarrow>
    ct_sm (manager_turn parse_str stats env c) = manager_after parse_str stats env (ct_dispatched (manager_turn parse_str stats env c)) m0)"
  by (auto simp: manager_turn_def serving_def client_log_def finish_log_def manager_after_def split: list.splits prod.splits)

lemma control_run_log:
  assumes "serving c" and "ct_sm c = manager_after parse_str stats env (ct_dispatched c) m0"
  shows "serving (control_run parse_str stats env evs c) \<and>
    ct_sm (control_run parse_str stats env evs c) =
      manager_after parse_str stats env (ct_dispatched (control_run parse_str stats env evs c)) m0 \<and>
    client_log (control_run parse_str stats env evs c) = client_log c @ concat (map (event_issues parse_str) evs) \<and>
    finish_log (control_run parse_str stats env evs c) = finish_log c @ concat (map event_finishes evs)"
  using assms
proof (induction evs arbitrary: c)
  case Nil
  then show ?case by (simp add: control_run_def)
next
  case (Cons ev evs)
  let ?d = "control_step parse_str stats env ev c"
  have "serving ?d \<and> ct_sm ?d = manager_after parse_str stats env (ct_dispatched ?d) m0 \<and>
      client_log ?d = client_log c @ event_issues parse_str ev \<and> finish_log ?d = finish_log c @ event_finishes ev"
  proof (cases ev)
    case (Call cc)
    then show ?thesis using do_call_effect [OF Cons.prems(1)] Cons.prems by simp
  next
    case AgentTurn
    then show ?thesis using agent_turn_effect [of c] Cons.prems by simp
  next
    case ManagerTurn
    then show ?thesis using manager_turn_effect [of parse_str stats env c m0] Cons.prems by simp
  next
    case (StreamFinished s)
    then show ?thesis using Cons.prems by (simp add: serving_def client_log_def finish_log_def is_finish_def)
  qed
  then show ?case using Cons.IH [of ?d] by (simp add: control_run_def)
qed

text \<open>Enough turns empty the channels.\<close>

lemma agent_turns_drain:
  "length (ct_agent_q c) = n \<Longrightarrow>
   let d = control_run parse_str stats env (replicate n AgentTurn) c
   in ct_agent_q d = [] \<and> length (ct_sm_q d) = length (ct_sm_q c) + n"
proof (induction n arbitrary: c)
  case (Suc n)
  then obtain a q where "ct_agent_q c = a # q" by (cases "ct_agent_q c") auto
  then have "length (ct_agent_q (agent_turn c)) = n" "length (ct_sm_q (agent_turn c)) = Suc (length (ct_sm_q c))"
    using Suc.prems by (simp_all add: agent_turn_def)
  then show ?case using Suc.IH [of "agent_turn c"] by (simp add: control_run_def Let_def)
qed (simp add: control_run_def)

lemma manager_turns_drain:
  "length (ct_sm_q c) = n \<Longrightarrow>
   let d = control_run parse_str stats env (replicate n ManagerTurn) c in ct_sm_q d = [] \<and> ct_agent_q d = ct_agent_q c"
proof (induction n arbitrary: c)
  case (Suc n)
  then obtain a q where "ct_sm_q c = a # q" by (cases "ct_sm_q c") auto
  then have "length (ct_sm_q (manager_turn parse_str stats env c)) = n"
    "ct_agent_q (manager_turn parse_str stats env c) = ct_agent_q c"
    using Suc.prems by (simp_all add: manager_turn_def split: prod.splits)
  then show ?case using Suc.IH [of "manager_turn parse_str stats env c"] by (simp add: control_run_def Let_def)
qed (simp add: control_run_def)

lemma control_run_append:
  "control_run parse_str stats env (xs @ ys) c = control_run parse_str stats env ys (control_run parse_str stats env xs c)"
  by (simp add: control_run_def)

lemma control_drains:
  "\<exists>turns. set turns \<subseteq> {AgentTurn, ManagerTurn} \<and>
     ct_agent_q (control_run parse_str stats env turns c) = [] \<and> ct_sm_q (control_run parse_str stats env turns c) = []"
proof -
  define n where "n = length (ct_agent_q c)"
  define d where "d = control_run parse_str stats env (replicate n AgentTurn) c"
  define k where "k = length (ct_sm_q d)"
  have "ct_agent_q d = []" using agent_turns_drain [of c n parse_str stats env] by (simp add: n_def d_def Let_def)
  then have "ct_agent_q (control_run parse_str stats env (replicate k ManagerTurn) d) = []"
    "ct_sm_q (control_run parse_str stats env (replicate k ManagerTurn) d) = []"
    using manager_turns_drain [of d k parse_str stats env] by (simp_all add: k_def Let_def)
  then show ?thesis
    by (intro exI [of _ "replicate n AgentTurn @ replicate k ManagerTurn"]) (auto simp: control_run_append d_def)
qed

lemma control_new_facts:
  assumes "control_new cfg session = Some c"
  shows "serving c" "client_log c = []" "finish_log c = []" "ct_dispatched c = []" "sm_link_state (ct_sm c) = Connecting"
    "ct_cfg c = runtime_config_new (unwrap_or (cf_bw_cap_bps cfg) 0) (cf_chunk_size_bytes cfg) (cf_max_concurrent cfg)"
    "config_validate cfg = Inr ()"
  using assms by (auto simp: control_new_def sm_new_def serving_def client_log_def finish_log_def split: sum.splits option.splits)


definition demo_config :: config where
  "demo_config = \<lparr>cf_bw_cap_bps = None, cf_chunk_size_bytes = DEFAULT_CHUNK_SIZE_BYTES,
     cf_spool_capacity_bytes = DEFAULT_SPOOL_CAPACITY_BYTES, cf_max_concurrent = DEFAULT_MAX_CONCURRENT,
     cf_max_pending = DEFAULT_MAX_PENDING, cf_congestion = NewReno\<rparr>"

lemma demo_config_starts: "control_new demo_config 0 = Some (the (control_new demo_config 0))"
  by (simp add: control_new_def demo_config_def config_validate_def DEFAULT_CHUNK_SIZE_BYTES_def
      DEFAULT_SPOOL_CAPACITY_BYTES_def sm_new_def arl_new_def)


lemma do_call_config:
  "1 \<le> rc_chunk_size_bytes (ct_cfg c) \<and> rc_chunk_size_bytes (ct_cfg c) \<le> 65535 \<Longrightarrow>
   1 \<le> rc_chunk_size_bytes (ct_cfg (do_call parse_str cc c)) \<and> rc_chunk_size_bytes (ct_cfg (do_call parse_str cc c)) \<le> 65535 \<and>
   rc_bw_cap_bps (ct_cfg (do_call parse_str cc c)) = rc_bw_cap_bps (ct_cfg c)"
  by (cases cc) (auto simp: handler_defs Let_def DEFAULT_CHUNK_SIZE_BYTES_def split: option.splits)

definition chunk_size_ok :: "control \<Rightarrow> bool" where
  "chunk_size_ok c \<longleftrightarrow> 1 \<le> rc_chunk_size_bytes (ct_cfg c) \<and> rc_chunk_size_bytes (ct_cfg c) \<le> 65535"

lemma turns_config [simp]:
  "ct_cfg (agent_turn c) = ct_cfg c" "ct_cfg (manager_turn parse_str stats env c) = ct_cfg c"
  by (simp_all add: agent_turn_def manager_turn_def split: list.splits prod.splits)

lemma control_run_config:
  "chunk_size_ok c \<Longrightarrow> chunk_size_ok (control_run parse_str stats env evs c) \<and>
   rc_bw_cap_bps (ct_cfg (control_run parse_str stats env evs c)) = rc_bw_cap_bps (ct_cfg c)"
proof (induction evs arbitrary: c)
  case (Cons ev evs)
  have "chunk_size_ok (control_step parse_str stats env ev c) \<and>
      rc_bw_cap_bps (ct_cfg (control_step parse_str stats env ev c)) = rc_bw_cap_bps (ct_cfg c)"
    using Cons.prems do_call_config [of c parse_str] by (cases ev) (auto simp: chunk_size_ok_def)
  then show ?case using Cons.IH by (simp add: control_run_def)
qed (simp add: control_run_def)



lemma link_state_on_start: "sm_link_state (snd (on_stream_start res p m)) = sm_link_state m"
  by (simp add: on_stream_start_def Let_def split: option.splits prod.splits)

lemma link_state_dispatch: "sm_link_state (snd (dispatch_cmd parse_str stats env cmd m)) = sm_link_state m"
  using link_state_on_start
  by (cases cmd) (auto simp: dispatch_cmd_def refill_def link_enable_def Let_def split: option.splits prod.splits, metis snd_conv)

lemma link_state_after: "sm_link_state (manager_after parse_str stats env cmds m) = sm_link_state m"
  by (induction cmds arbitrary: m) (simp_all add: manager_after_def link_state_dispatch)

text \<open>The link state before the first failure. The agent starts in \<open>Connecting\<close> with a session already
  established, and only a change of the link state announced by a session updates it. So as long as
  the first session lasts, whatever streams run, the state reported to the client is \<open>CONNECTING\<close> and
  never \<open>NORMAL\<close>.\<close>

theorem link_state_reported_connecting:
  assumes "control_new cfg session = Some c0"
  shows "handle_get_link_state (control_run parse_str stats env evs c0) = CONNECTING"
  using control_run_log [of c0 parse_str stats env "ct_sm c0" evs] control_new_facts [OF assms]
  by (simp add: handle_get_link_state_def manager_after_def [of _ _ _ "[]"] link_state_after)

theorem link_state_reported_connecting_witness:
  "handle_get_link_state (control_run (\<lambda>s. Some 3) (\<lambda>_. default_conn_stats) (\<lambda>_. Opened 7)
     [Call (CallStreamStart ''3'' \<lparr>w_size_bytes = None, w_attrs = None\<rparr> 0), AgentTurn, ManagerTurn]
     (the (control_new demo_config 0))) = CONNECTING"
  using link_state_reported_connecting [OF demo_config_starts] by blast

end
