(* ===== verification/Float64.thy ===== *)
theory Float64
  imports Complex_Main Prelude
begin

text \<open>
  Rust's \<open>f64\<close> as the sources use it: IEEE 754 binary64 with rounding to nearest, ties to even.

  A finite value \<open>Fin s m e\<close> stands for m * 2^e, negated when s; every finite result of an operation
  is \<open>representable\<close> (a significand of at most 2^53 and an exponent of at least -1074). The operations
  compute the exact result as a fraction of natural numbers and round it once with \<open>f64_round\<close>, as the standard
  prescribes. \<open>f64_val\<close> gives the number for the lemmas; it is not used by the operations, which stay
  executable. Conversions: \<open>as f64\<close> rounds, \<open>as u64\<close> truncates and saturates, \<open>str::parse\<close> rounds the
  decimal number once, \<open>{:.1}\<close> prints the exact value rounded to one digit, ties to even.

  The locale \<open>rounding\<close> is what the users of a rounding rely on: it fixes representable numbers and does
  not cross them. It is interpreted on \<open>f64_round\<close>.
\<close>

section \<open>Fractions\<close>

fun bits :: "nat \<Rightarrow> nat" where
  "bits n = (if n = 0 then 0 else Suc (bits (n div 2)))"

declare bits.simps [simp del]

definition half_even :: "nat \<Rightarrow> nat \<Rightarrow> nat" where
  "half_even n d =
     (let q = n div d; r = n mod d
      in if 2 * r < d \<or> 2 * r = d \<and> even q then q else q + 1)"

text \<open>Multiplication of the fraction by \<open>2^k\<close>.\<close>

definition scale :: "int \<Rightarrow> nat \<Rightarrow> nat \<Rightarrow> nat \<times> nat" where
  "scale k n d = (if 0 \<le> k then (n * 2 ^ nat k, d) else (n, d * 2 ^ nat (- k)))"

definition floor_log2 :: "nat \<Rightarrow> nat \<Rightarrow> int" where
  "floor_log2 n d =
     (let k = int (bits n) - int (bits d); (n', d') = scale (- k) n d
      in if d' \<le> n' then k else k - 1)"

section \<open>Values and operations\<close>

datatype f64 = Nan | Inf bool | Fin bool nat int

definition f64_round :: "bool \<Rightarrow> nat \<Rightarrow> nat \<Rightarrow> f64" where
  "f64_round s n d =
     (if n = 0 then Fin s 0 0
      else let e = max (floor_log2 n d - 52) (- 1074); (n', d') = scale (- e) n d; m = half_even n' d'
           in if 971 < e \<or> e = 971 \<and> 2 ^ 53 \<le> m then Inf s else Fin s m e)"

definition f64_of_nat :: "nat \<Rightarrow> f64" where
  "f64_of_nat n = f64_round False n 1"

fun f64_mul :: "f64 \<Rightarrow> f64 \<Rightarrow> f64" where
  "f64_mul (Fin s m e) (Fin t n f) = (let (a, b) = scale (e + f) (m * n) 1 in f64_round (s \<noteq> t) a b)"
| "f64_mul (Inf s) (Fin t n f) = (if n = 0 then Nan else Inf (s \<noteq> t))"
| "f64_mul (Fin s m e) (Inf t) = (if m = 0 then Nan else Inf (s \<noteq> t))"
| "f64_mul (Inf s) (Inf t) = Inf (s \<noteq> t)"
| "f64_mul Nan y = Nan"
| "f64_mul x Nan = Nan"

fun f64_div :: "f64 \<Rightarrow> f64 \<Rightarrow> f64" where
  "f64_div (Fin s m e) (Fin t n f) =
     (if n = 0 then if m = 0 then Nan else Inf (s \<noteq> t)
      else let (a, b) = scale (e - f) m n in f64_round (s \<noteq> t) a b)"
| "f64_div (Inf s) (Fin t n f) = Inf (s \<noteq> t)"
| "f64_div (Fin s m e) (Inf t) = Fin (s \<noteq> t) 0 0"
| "f64_div (Inf s) (Inf t) = Nan"
| "f64_div Nan y = Nan"
| "f64_div x Nan = Nan"

text \<open>Two finite values over a common power of two.\<close>

definition signed :: "bool \<Rightarrow> nat \<Rightarrow> int" where
  "signed s n = (if s then - int n else int n)"

definition aligned :: "bool \<Rightarrow> nat \<Rightarrow> int \<Rightarrow> int \<Rightarrow> int" where
  "aligned s m e e0 = signed s (m * 2 ^ nat (e - e0))"

fun f64_add :: "f64 \<Rightarrow> f64 \<Rightarrow> f64" where
  "f64_add (Fin s m e) (Fin t n f) =
     (let e0 = min e f; i = aligned s m e e0 + aligned t n f e0; (a, b) = scale e0 (nat \<bar>i\<bar>) 1
      in if i = 0 then Fin (s \<and> t) 0 0 else f64_round (i < 0) a b)"
| "f64_add (Inf s) (Inf t) = (if s = t then Inf s else Nan)"
| "f64_add (Inf s) (Fin t n f) = Inf s"
| "f64_add (Fin s m e) (Inf t) = Inf t"
| "f64_add Nan y = Nan"
| "f64_add x Nan = Nan"

fun f64_neg :: "f64 \<Rightarrow> f64" where
  "f64_neg Nan = Nan"
| "f64_neg (Inf s) = Inf (\<not> s)"
| "f64_neg (Fin s m e) = Fin (\<not> s) m e"

definition f64_sub :: "f64 \<Rightarrow> f64 \<Rightarrow> f64" where
  "f64_sub x y = f64_add x (f64_neg y)"

fun f64_le :: "f64 \<Rightarrow> f64 \<Rightarrow> bool" where
  "f64_le (Fin s m e) (Fin t n f) = (let e0 = min e f in aligned s m e e0 \<le> aligned t n f e0)"
| "f64_le (Inf s) (Inf t) = (s \<or> \<not> t)"
| "f64_le (Inf s) (Fin t n f) = s"
| "f64_le (Fin s m e) (Inf t) = (\<not> t)"
| "f64_le Nan y = False"
| "f64_le x Nan = False"

fun f64_is_zero :: "f64 \<Rightarrow> bool" where
  "f64_is_zero (Fin s m e) = (m = 0)"
| "f64_is_zero _ = False"

fun f64_to_u64 :: "f64 \<Rightarrow> nat" where
  "f64_to_u64 Nan = 0"
| "f64_to_u64 (Inf s) = (if s then 0 else u64_max)"
| "f64_to_u64 (Fin s m e) = (if s then 0 else let (a, b) = scale e m 1 in min (a div b) u64_max)"

section \<open>Lemmas on fractions\<close>

lemma bits_bounds: "0 < n \<Longrightarrow> 2 ^ (bits n - 1) \<le> n \<and> n < 2 ^ bits n \<and> 0 < bits n"
proof (induction n rule: bits.induct)
  case (1 n)
  show ?case
  proof (cases "n div 2 = 0")
    case True
    with 1 have "n = 1" by auto
    then show ?thesis by (simp add: bits.simps)
  next
    case False
    with 1 have ih: "2 ^ (bits (n div 2) - 1) \<le> n div 2" "n div 2 < 2 ^ bits (n div 2)" "0 < bits (n div 2)" by auto
    have b: "bits n = Suc (bits (n div 2))" using "1.prems" by (simp add: bits.simps [of n])
    define p where "p = (2 :: nat) ^ (bits (n div 2) - 1)"
    have p: "(2 :: nat) ^ bits (n div 2) = 2 * p" using ih(3) by (cases "bits (n div 2)") (auto simp: p_def)
    then have "p \<le> n div 2" "n div 2 < 2 * p" using ih by (simp_all add: p_def)
    then have "2 * p \<le> n" "n < 4 * p" by linarith+
    then show ?thesis using b p by simp
  qed
qed

definition ratio :: "nat \<Rightarrow> nat \<Rightarrow> real" where
  "ratio n d = real n / real d"

lemma scale_value:
  assumes "0 < d" "scale k n d = (n', d')"
  shows "ratio n' d' = ratio n d * 2 powi k \<and> 0 < d'"
  using assms by (auto simp: scale_def ratio_def power_int_def field_simps split: if_splits)

lemma scale_nonzero: "scale k n d = (n', d') \<Longrightarrow> n' = 0 \<longleftrightarrow> n = 0"
  by (auto simp: scale_def split: if_splits)

lemma floor_log2_bounds:
  assumes "0 < n" "0 < d"
  shows "2 powi floor_log2 n d \<le> ratio n d \<and> ratio n d < 2 powi (floor_log2 n d + 1)"
proof -
  define k where "k = int (bits n) - int (bits d)"
  obtain n' d' where s: "scale (- k) n d = (n', d')" by (metis prod.exhaust)
  note v = scale_value [OF assms(2) s]
  note bn = bits_bounds [OF assms(1)] and bd = bits_bounds [OF assms(2)]
  have up: "ratio n d < 2 powi (k + 1)"
  proof -
    have "real n < 2 ^ bits n" using bn by (metis of_nat_less_iff of_nat_numeral of_nat_power)
    moreover have "2 ^ (bits d - 1) \<le> real d" using bd by (metis of_nat_le_iff of_nat_numeral of_nat_power)
    ultimately have "ratio n d < 2 ^ bits n / 2 ^ (bits d - 1)" unfolding ratio_def
      by (intro frac_less) auto
    also have "\<dots> = 2 powi (int (bits n) - int (bits d - 1))" by (simp add: power_int_diff)
    also have "int (bits n) - int (bits d - 1) = k + 1" using bd by (simp add: k_def of_nat_diff)
    finally show ?thesis .
  qed
  have lo: "2 powi (k - 1) \<le> ratio n d"
  proof -
    have "real d < 2 ^ bits d" using bd by (metis of_nat_less_iff of_nat_numeral of_nat_power)
    moreover have "2 ^ (bits n - 1) \<le> real n" using bn by (metis of_nat_le_iff of_nat_numeral of_nat_power)
    ultimately have "2 ^ (bits n - 1) / 2 ^ bits d \<le> ratio n d" unfolding ratio_def
      using assms(2) by (intro frac_le) auto
    moreover have "2 ^ (bits n - 1) / 2 ^ bits d = (2 :: real) powi (int (bits n - 1) - int (bits d))" by (simp add: power_int_diff)
    moreover have "int (bits n - 1) - int (bits d) = k - 1" using bn by (simp add: k_def of_nat_diff)
    ultimately show ?thesis by metis
  qed
  have cmp: "d' \<le> n' \<longleftrightarrow> 2 powi k \<le> ratio n d"
  proof -
    have "0 < d'" and e: "ratio n' d' = ratio n d * 2 powi (- k)" using v by simp_all
    from \<open>0 < d'\<close> have "d' \<le> n' \<longleftrightarrow> 1 \<le> ratio n' d'" by (simp add: ratio_def)
    also have "\<dots> \<longleftrightarrow> 1 \<le> ratio n d * 2 powi (- k)" by (simp only: e)
    also have "\<dots> \<longleftrightarrow> 2 powi k \<le> ratio n d" by (simp add: power_int_minus field_simps)
    finally show ?thesis .
  qed
  have "floor_log2 n d = (if d' \<le> n' then k else k - 1)" using s by (simp add: floor_log2_def k_def Let_def)
  then show ?thesis using up lo cmp by (auto simp: not_le)
qed

lemma half_even_floor: "n div d \<le> half_even n d \<and> half_even n d \<le> n div d + 1"
  by (simp add: half_even_def Let_def)

lemma half_even_lower: "0 < d \<Longrightarrow> real k \<le> ratio n d \<Longrightarrow> k \<le> half_even n d"
proof -
  assume d: "0 < d" and k: "real k \<le> ratio n d"
  then have "real (k * d) \<le> real n" by (simp add: ratio_def field_simps)
  then have "k * d \<le> n" by (simp only: of_nat_le_iff)
  then have "k \<le> n div d" using d by (simp add: less_eq_div_iff_mult_less_eq)
  then show ?thesis using half_even_floor le_trans by blast
qed

lemma half_even_upper: "0 < d \<Longrightarrow> ratio n d \<le> real k \<Longrightarrow> half_even n d \<le> k"
proof -
  assume d: "0 < d" and k: "ratio n d \<le> real k"
  then have "real n \<le> real (k * d)" by (simp add: ratio_def field_simps)
  then have n: "n \<le> k * d" by (simp only: of_nat_le_iff)
  show ?thesis
  proof (cases "n mod d = 0")
    case True
    then have "half_even n d = n div d" using d by (simp add: half_even_def)
    also have "\<dots> \<le> k" using n d by (metis div_le_mono nonzero_mult_div_cancel_right not_gr_zero)
    finally show ?thesis .
  next
    case False
    then have "n < k * d" using n by (metis le_neq_implies_less mod_mult_self2_is_0)
    then have "n div d < k" using d by (simp add: div_less_iff_less_mult)
    then show ?thesis using half_even_floor [of n d] by linarith
  qed
qed

lemma half_even_error: "0 < d \<Longrightarrow> \<bar>real (half_even n d) - ratio n d\<bar> \<le> 1 / 2"
proof -
  assume d: "0 < d"
  have "real n = real (n div d) * real d + real (n mod d)" by (metis div_mult_mod_eq of_nat_add of_nat_mult)
  then have x: "ratio n d = real (n div d) + real (n mod d) / real d" using d by (simp add: ratio_def field_simps)
  have m: "n mod d < d" using d by simp
  consider (down) "half_even n d = n div d" "2 * (n mod d) \<le> d" | (up) "half_even n d = n div d + 1" "d \<le> 2 * (n mod d)"
    by (cases "2 * (n mod d) < d \<or> 2 * (n mod d) = d \<and> even (n div d)") (auto simp: half_even_def Let_def)
  then show ?thesis
  proof cases
    case down
    then have "real (2 * (n mod d)) \<le> real d" by (simp only: of_nat_le_iff)
    then have "real (n mod d) / real d \<le> 1 / 2" using d by (simp add: field_simps)
    then show ?thesis using down x by simp
  next
    case up
    then have "real d \<le> real (2 * (n mod d))" by (simp only: of_nat_le_iff)
    then have "1 / 2 \<le> real (n mod d) / real d" "real (n mod d) / real d \<le> 1" using d m by (auto simp: field_simps)
    then show ?thesis using up x by (simp add: abs_le_iff)
  qed
qed

section \<open>Rounding\<close>

fun f64_val :: "f64 \<Rightarrow> real" where
  "f64_val (Fin s m e) = (if s then - 1 else 1) * (real m * 2 powi e)"
| "f64_val _ = 0"

definition representable :: "real \<Rightarrow> bool" where
  "representable z \<longleftrightarrow> (\<exists>m e. z = real m * 2 powi e \<and> m < 2 ^ 53 \<and> - 1074 \<le> e \<and> e \<le> 971)"

lemma powi_shift: "(2 :: real) powi a = 2 powi b * 2 powi (a - b)"
  by (simp add: power_int_diff)

lemma powi_le: "a \<le> b \<Longrightarrow> (2 :: real) powi a \<le> 2 powi b"
  by (rule power_int_increasing) auto

text \<open>What \<open>f64_round\<close> chooses: the exponent e, and m next to the scaled fraction x.\<close>

lemma f64_round_choice:
  assumes "0 < n" "0 < d"
  obtains e m x where "f64_round s n d = (if 971 < e \<or> e = 971 \<and> 2 ^ 53 \<le> m then Inf s else Fin s m e)"
    and "ratio n d = x * 2 powi e" and "\<And>k. real k \<le> x \<Longrightarrow> k \<le> m" and "\<And>k. x \<le> real k \<Longrightarrow> m \<le> k"
    and "\<bar>real m - x\<bar> \<le> 1 / 2" and "- 1074 \<le> e" and "x < 2 ^ 53" and "e = - 1074 \<or> 2 ^ 52 \<le> x" and "0 < x"
proof -
  define e where "e = max (floor_log2 n d - 52) (- 1074)"
  obtain n' d' where s: "scale (- e) n d = (n', d')" by (metis prod.exhaust)
  define m where "m = half_even n' d'"
  note v = scale_value [OF assms(2) s]
  have x: "ratio n d = ratio n' d' * 2 powi e" using v by (simp add: power_int_minus)
  have r: "f64_round s n d = (if 971 < e \<or> e = 971 \<and> 2 ^ 53 \<le> m then Inf s else Fin s m e)"
    using assms(1) s by (simp add: f64_round_def e_def m_def Let_def)
  note b = floor_log2_bounds [OF assms]
  have up: "ratio n' d' < 2 ^ 53"
  proof -
    have "ratio n d < 2 powi (e + 53)" using b powi_le [of "floor_log2 n d + 1" "e + 53"] unfolding e_def by linarith
    then have "ratio n' d' * 2 powi e < 2 ^ 53 * 2 powi e" using x by (simp add: power_int_add)
    then show ?thesis by simp
  qed
  have lo: "e = - 1074 \<or> 2 ^ 52 \<le> ratio n' d'"
  proof (cases "e = - 1074")
    case False
    then have "2 powi (e + 52) \<le> ratio n d" using b by (simp add: e_def max_def split: if_splits)
    then have "2 ^ 52 * 2 powi e \<le> ratio n' d' * 2 powi e" using x by (simp add: power_int_add)
    then show ?thesis by simp
  qed simp
  have "0 < n'" "0 < d'" using v scale_nonzero [OF s] assms(1) by auto
  then have "0 < ratio n' d'" by (simp add: ratio_def)
  note pos = this
  have ge: "- 1074 \<le> e" by (simp add: e_def)
  show thesis
    by (rule that [OF r x _ _ _ ge up lo pos])
       (use \<open>0 < d'\<close> in \<open>auto simp only: m_def intro: half_even_lower half_even_upper half_even_error\<close>)
qed

text \<open>A representable number is a multiple of \<open>2^e\<close>, or smaller than any number that is rounded with
  the exponent e.\<close>

lemma representable_cases:
  assumes "representable z" "0 \<le> z" and "e = - 1074 \<or> 2 ^ 52 \<le> x" and "- 1074 \<le> e"
  obtains (multiple) j :: nat where "z = real j * 2 powi e" | (small) "z < x * 2 powi e" "z < 2 ^ 52 * 2 powi e" "2 ^ 52 \<le> x"
proof -
  obtain k f where z: "z = real k * 2 powi f" "k < 2 ^ 53" "- 1074 \<le> f" using assms(1) by (auto simp: representable_def)
  show thesis
  proof (cases "e \<le> f")
    case True
    have "(2 :: real) powi f = 2 powi e * 2 ^ nat (f - e)"
      using True by (subst powi_shift [of f e]) (simp add: power_int_def)
    then have "z = real (k * 2 ^ nat (f - e)) * 2 powi e" using z(1) by simp
    then show thesis by (rule multiple)
  next
    case False
    have k: "real k < 2 ^ 53" using z(2) by (metis of_nat_less_iff of_nat_numeral of_nat_power)
    have "z < 2 ^ 53 * 2 powi f" using z(1) k by simp
    also have "\<dots> \<le> 2 ^ 53 * 2 powi (e - 1)" using False powi_le [of f "e - 1"] by simp
    also have "\<dots> = 2 ^ 52 * 2 powi e" by (simp add: power_int_diff)
    finally have lt: "z < 2 ^ 52 * 2 powi e" .
    have x: "2 ^ 52 \<le> x" using assms(3) False z(3) by auto
    then have "2 ^ 52 * 2 powi e \<le> x * 2 powi e" by simp
    then show thesis using lt x small by linarith
  qed
qed

lemma f64_round_lower:
  assumes "representable z" "0 \<le> z" "0 < d" "z \<le> ratio n d"
  shows "f64_round s n d = Inf s \<or> (\<exists>m e. f64_round s n d = Fin s m e \<and> z \<le> real m * 2 powi e)"
proof (cases "n = 0")
  case True
  then show ?thesis using assms by (simp add: f64_round_def ratio_def)
next
  case False
  then have "0 < n" by simp
  then obtain e m x where c: "f64_round s n d = (if 971 < e \<or> e = 971 \<and> 2 ^ 53 \<le> m then Inf s else Fin s m e)"
    "ratio n d = x * 2 powi e" "\<And>k. real k \<le> x \<Longrightarrow> k \<le> m" "- 1074 \<le> e" "e = - 1074 \<or> 2 ^ 52 \<le> x"
    by (rule f64_round_choice [OF _ assms(3), of n s]) blast
  have "z \<le> real m * 2 powi e"
    using assms(1,2) c(5,4)
  proof (cases rule: representable_cases)
    case (multiple j)
    then have "real j \<le> x" using assms(4) c(2) by simp
    then have "j \<le> m" by (rule c(3))
    then show ?thesis using multiple by simp
  next
    case small
    then have "2 ^ 52 \<le> m" using c(3) [of "2 ^ 52"] by simp
    then have "2 ^ 52 \<le> real m" by (metis of_nat_le_iff of_nat_numeral of_nat_power)
    then have "2 ^ 52 * 2 powi e \<le> real m * 2 powi e" by simp
    then show ?thesis using small by linarith
  qed
  then show ?thesis using c(1) by (auto split: if_splits)
qed

lemma f64_round_upper:
  assumes "representable z" "0 \<le> z" "0 < d" "ratio n d \<le> z"
  shows "\<exists>m e. f64_round s n d = Fin s m e \<and> real m * 2 powi e \<le> z"
proof (cases "n = 0")
  case True
  then show ?thesis using assms by (simp add: f64_round_def)
next
  case False
  then have "0 < n" by simp
  then obtain e m x where c: "f64_round s n d = (if 971 < e \<or> e = 971 \<and> 2 ^ 53 \<le> m then Inf s else Fin s m e)"
    "ratio n d = x * 2 powi e" "\<And>k. x \<le> real k \<Longrightarrow> m \<le> k" "- 1074 \<le> e" "e = - 1074 \<or> 2 ^ 52 \<le> x"
    by (rule f64_round_choice [OF _ assms(3), of n s]) blast
  have le: "real m * 2 powi e \<le> z"
    using assms(1,2) c(5,4)
  proof (cases rule: representable_cases)
    case (multiple j)
    then have "x \<le> real j" using assms(4) c(2) by simp
    then have "m \<le> j" by (rule c(3))
    then show ?thesis using multiple by simp
  next
    case small
    then show ?thesis using assms(4) c(2) by linarith
  qed
  obtain k f where z: "z = real k * 2 powi f" "k < 2 ^ 53" "f \<le> 971" using assms(1) by (auto simp: representable_def)
  have "real k < 2 ^ 53" using z(2) by (metis of_nat_less_iff of_nat_numeral of_nat_power)
  then have "z < 2 ^ 53 * 2 powi f" using z(1) by simp
  also have "\<dots> \<le> 2 ^ 53 * 2 powi 971" using powi_le [OF z(3)] by simp
  finally have z_lt: "z < 2 ^ 53 * 2 powi 971" .
  have "\<not> (971 < e \<or> e = 971 \<and> 2 ^ 53 \<le> m)"
  proof
    assume over: "971 < e \<or> e = 971 \<and> 2 ^ 53 \<le> m"
    have "2 ^ 53 * 2 powi 971 \<le> real m * 2 powi e"
    proof (cases "e = 971")
      case True
      then have "2 ^ 53 \<le> m" using over by simp
      then have "2 ^ 53 \<le> real m" by (metis of_nat_le_iff of_nat_numeral of_nat_power)
      then show ?thesis using True by simp
    next
      case False
      then have e: "972 \<le> e" using over by auto
      then have "2 ^ 52 \<le> x" using c(5) by auto
      then have "2 ^ 52 * 2 powi e \<le> ratio n d" using c(2) by simp
      moreover have "2 ^ 53 * (2 :: real) powi 971 \<le> 2 ^ 52 * 2 powi e" using powi_le [OF e] by simp
      ultimately show ?thesis using assms(4) z_lt by linarith
    qed
    then show False using le z_lt by linarith
  qed
  then show ?thesis using c(1) le by auto
qed

text \<open>The contract of a rounding: it does not cross a representable number.\<close>

locale rounding =
  fixes rnd :: "nat \<Rightarrow> nat \<Rightarrow> f64"
  assumes rnd_lower: "representable z \<Longrightarrow> 0 \<le> z \<Longrightarrow> 0 < d \<Longrightarrow> z \<le> ratio n d \<Longrightarrow>
      rnd n d = Inf False \<or> (\<exists>m e. rnd n d = Fin False m e \<and> z \<le> real m * 2 powi e)"
    and rnd_upper: "representable z \<Longrightarrow> 0 \<le> z \<Longrightarrow> 0 < d \<Longrightarrow> ratio n d \<le> z \<Longrightarrow>
      \<exists>m e. rnd n d = Fin False m e \<and> real m * 2 powi e \<le> z"
begin

lemma rnd_exact:
  assumes "representable (ratio n d)" "0 < d"
  shows "\<exists>m e. rnd n d = Fin False m e \<and> real m * 2 powi e = ratio n d"
proof -
  have "0 \<le> ratio n d" by (simp add: ratio_def)
  then show ?thesis using rnd_lower [OF assms(1) _ assms(2)] rnd_upper [OF assms(1) _ assms(2)] by fastforce
qed

end

interpretation f64r: rounding "f64_round False"
  by unfold_locales (use f64_round_lower f64_round_upper in blast)+

lemma representable_nat: "n < 2 ^ 53 \<Longrightarrow> representable (real n)"
  unfolding representable_def by (intro exI [of _ n] exI [of _ 0]) simp

lemma representable_shift:
  assumes "n < 2 ^ 53" "- 1074 \<le> k" "k \<le> 971"
  shows "representable (real n * 2 powi k)"
  unfolding representable_def using assms by blast

lemma scale_floor:
  assumes "scale e m 1 = (a, b)"
  shows "int (a div b) = \<lfloor>real m * 2 powi e\<rfloor>"
proof -
  have "ratio a b = real m * 2 powi e" "0 < b" using scale_value [OF _ assms] by (auto simp: ratio_def)
  then show ?thesis by (metis ratio_def floor_divide_of_nat_eq of_int_of_nat_eq)
qed

lemma f64_to_u64_floor: "int (f64_to_u64 (Fin False m e)) = min \<lfloor>real m * 2 powi e\<rfloor> (int u64_max)"
  using scale_floor [of e m] by (auto simp: min_def split: prod.split)

lemma to_u64_exact:
  assumes "real m * 2 powi e = real k" "k \<le> u64_max"
  shows "f64_to_u64 (Fin False m e) = k"
  using f64_to_u64_floor [of m e] assms by (simp add: min_def split: if_splits)

text \<open>The product of two values with no error: both factors and the product are small integers.\<close>

lemma f64_of_nat_exact:
  assumes "n < 2 ^ 53"
  obtains m e where "f64_of_nat n = Fin False m e" and "real m * 2 powi e = real n"
  using f64r.rnd_exact [of n 1] representable_nat [OF assms] that by (auto simp: f64_of_nat_def ratio_def)

lemma f64_mul_round:
  obtains a b where "f64_mul (Fin s m e) (Fin t n f) = f64_round (s \<noteq> t) a b" and "0 < b"
    and "ratio a b = (real m * 2 powi e) * (real n * 2 powi f)" and "a = 0 \<longleftrightarrow> m * n = 0"
proof -
  obtain a b where s: "scale (e + f) (m * n) 1 = (a, b)" by (metis prod.exhaust)
  then have "ratio a b = (real m * 2 powi e) * (real n * 2 powi f)" "0 < b"
    using scale_value [OF _ s] by (auto simp: ratio_def power_int_add)
  then show thesis using that [of a b] s scale_nonzero [OF s] by simp
qed

lemma f64_mul_pos:
  obtains a b where "f64_mul (Fin False m e) (Fin False n f) = f64_round False a b" and "0 < b"
    and "ratio a b = (real m * 2 powi e) * (real n * 2 powi f)"
  by (rule f64_mul_round [of False m e False n f]) (simp only: not_False_eq_True simp_thms)

lemma f64_mul_exact:
  assumes "real m * 2 powi e = x" "real n * 2 powi f = y" "representable (x * y)"
  obtains m' e' where "f64_mul (Fin False m e) (Fin False n f) = Fin False m' e'" and "real m' * 2 powi e' = x * y"
proof -
  obtain a b where p: "f64_mul (Fin False m e) (Fin False n f) = f64_round False a b" "0 < b"
    "ratio a b = (real m * 2 powi e) * (real n * 2 powi f)" by (rule f64_mul_pos)
  have r: "ratio a b = x * y" using p(3) assms(1,2) by (simp only:)
  from f64r.rnd_exact [of a b] show thesis using assms(3) p(1,2) that unfolding r by auto
qed

lemma f64_div_round:
  assumes "0 < n"
  obtains a b where "f64_div (Fin s m e) (Fin t n f) = f64_round (s \<noteq> t) a b" and "0 < b"
    and "ratio a b = (real m * 2 powi e) / (real n * 2 powi f)"
proof -
  obtain a b where s: "scale (e - f) m n = (a, b)" by (metis prod.exhaust)
  then have "ratio a b = (real m * 2 powi e) / (real n * 2 powi f)" "0 < b"
    using scale_value [OF assms s] by (auto simp: ratio_def power_int_diff)
  then show thesis using that [of a b] s assms by simp
qed

text \<open>The error of a rounding, relative for normal numbers.\<close>

lemma f64_round_error:
  assumes "0 < d" "f64_round s n d = Fin s m e"
  shows "\<bar>real m * 2 powi e - ratio n d\<bar> \<le> ratio n d * 2 powi (- 53) + 2 powi (- 1075)"
proof (cases "n = 0")
  case True
  then show ?thesis using assms by (simp add: f64_round_def ratio_def)
next
  case False
  then have "0 < n" by simp
  then obtain f j x where c: "f64_round s n d = (if 971 < f \<or> f = 971 \<and> 2 ^ 53 \<le> j then Inf s else Fin s j f)"
    "ratio n d = x * 2 powi f" "\<bar>real j - x\<bar> \<le> 1 / 2" "f = - 1074 \<or> 2 ^ 52 \<le> x" "0 < x"
    by (rule f64_round_choice [OF _ assms(1), of n s]) blast
  have eq: "j = m" "f = e" using c(1) assms(2) by (auto split: if_splits)
  have "real m * 2 powi e - ratio n d = (real m - x) * 2 powi e" using c(2) eq by (simp add: algebra_simps)
  then have "\<bar>real m * 2 powi e - ratio n d\<bar> = \<bar>real m - x\<bar> * 2 powi e" by (simp add: abs_mult)
  also have "\<dots> \<le> 1 / 2 * 2 powi e" using c(3) eq by (intro mult_right_mono) auto
  also have "\<dots> \<le> ratio n d * 2 powi (- 53) + 2 powi (- 1075)"
  proof (cases "e = - 1074")
    case True
    have "(2 :: real) powi (- 1075) = 2 powi (- 1074) * 2 powi (- 1)" using powi_shift [of "- 1075" "- 1074"] by simp
    then have "1 / 2 * 2 powi e = (2 :: real) powi (- 1075)" using True by (simp add: power_int_minus)
    moreover have "0 \<le> ratio n d * 2 powi (- 53)" by (simp add: ratio_def)
    ultimately show ?thesis by linarith
  next
    case False
    then have "2 ^ 52 * 2 powi e \<le> ratio n d" using c(2,4) eq by simp
    then have "2 ^ 52 * 2 powi e * 2 powi (- 53) \<le> ratio n d * 2 powi (- 53)" by (intro mult_right_mono) auto
    moreover have "2 ^ 52 * 2 powi e * 2 powi (- 53) = 1 / 2 * (2 :: real) powi e" by (simp add: power_int_minus)
    ultimately show ?thesis using zero_less_power_int [of "2 :: real" "- 1075"] by linarith
  qed
  finally show ?thesis .
qed

lemma significand_pos: "real m * 2 powi e = real j \<Longrightarrow> 0 < j \<Longrightarrow> 0 < m"
  by (cases m) auto

section \<open>Durations and comparisons\<close>

text \<open>\<open>Duration::as_secs_f64\<close>, for whole seconds and nanoseconds.\<close>

type_synonym duration = "nat \<times> nat"

definition as_secs_f64 :: "duration \<Rightarrow> f64" where
  "as_secs_f64 t = f64_add (f64_of_nat (fst t)) (f64_div (f64_of_nat (snd t)) (f64_of_nat 1000000000))"

lemma aligned_val:
  assumes "e0 \<le> e"
  shows "real_of_int (aligned s m e e0) * 2 powi e0 = f64_val (Fin s m e)"
proof -
  have "(2 :: real) powi e = 2 powi e0 * 2 ^ nat (e - e0)"
    using assms by (subst powi_shift [of e e0]) (simp add: power_int_def)
  then show ?thesis by (simp add: aligned_def signed_def)
qed

lemma f64_le_val: "f64_le (Fin s m e) (Fin t n f) \<longleftrightarrow> f64_val (Fin s m e) \<le> f64_val (Fin t n f)"
proof -
  let ?z = "min e f"
  have "aligned s m e ?z \<le> aligned t n f ?z \<longleftrightarrow>
      real_of_int (aligned s m e ?z) * 2 powi ?z \<le> real_of_int (aligned t n f ?z) * 2 powi ?z" by simp
  also have "\<dots> \<longleftrightarrow> f64_val (Fin s m e) \<le> f64_val (Fin t n f)" by (simp only: aligned_val min.cobounded1 min.cobounded2)
  finally show ?thesis by simp
qed

lemma f64_round_zero_sign: "f64_round s 0 d = Fin s 0 0"
  by (simp add: f64_round_def)

text \<open>A duration of whole seconds.\<close>

lemma f64_add_zero:
  assumes "real m * 2 powi e = real n" "0 < n" "n < 2 ^ 53"
  shows "\<exists>m' e'. f64_add (Fin False m e) (Fin False 0 f) = Fin False m' e' \<and> real m' * 2 powi e' = real n"
proof -
  let ?z = "min e f"
  have i: "real_of_int (aligned False m e ?z) * 2 powi ?z = real n" using aligned_val [of ?z e False m] assms(1) by simp
  have z: "aligned False 0 f ?z = 0" by (simp add: aligned_def signed_def)
  have pos: "0 < aligned False m e ?z" using i assms(2) by (metis mult_pos_pos of_int_0_less_iff of_nat_0_less_iff zero_less_mult_pos2 zero_less_power_int zero_less_numeral)
  obtain a b where s: "scale ?z (nat (aligned False m e ?z)) 1 = (a, b)" by (metis prod.exhaust)
  have r: "ratio a b = real n" "0 < b" using scale_value [OF _ s] i pos by (auto simp: ratio_def)
  then obtain m' e' where "f64_round False a b = Fin False m' e'" "real m' * 2 powi e' = real n"
    using f64r.rnd_exact [of a b] representable_nat [OF assms(3)] by auto
  then show ?thesis using s z pos by (simp add: Let_def)
qed

lemma as_secs_whole:
  assumes "0 < secs" "secs < 2 ^ 53"
  obtains m e where "as_secs_f64 (secs, 0) = Fin False m e" and "real m * 2 powi e = real secs"
proof -
  obtain m e where v: "f64_of_nat secs = Fin False m e" "real m * 2 powi e = real secs" by (rule f64_of_nat_exact [OF assms(2)])
  obtain m' e' where w: "f64_of_nat 1000000000 = Fin False m' e'" "real m' * 2 powi e' = real 1000000000"
    by (rule f64_of_nat_exact [of 1000000000]) auto
  have "0 < m'" by (rule significand_pos [OF w(2)]) simp
  then obtain f where "f64_div (f64_of_nat 0) (f64_of_nat 1000000000) = Fin False 0 f"
    using w(1) by (simp add: f64_of_nat_def f64_round_zero_sign scale_def)
  then show thesis using f64_add_zero [OF v(2) assms] v(1) that by (auto simp: as_secs_f64_def)
qed

section \<open>A rate within a tolerance\<close>

text \<open>Both test programs accept a rate between two multiples of the cap. A rate that is exactly the cap is
  accepted whenever the factors are on either side of 1.\<close>

lemma rate_at_cap_accepted:
  assumes "representable c" "real m * 2 powi e = c" "real m' * 2 powi e' = c" "0 \<le> c"
    and "real k * 2 powi f \<le> 1" "1 \<le> real j * 2 powi g"
  shows "f64_le (f64_mul (Fin False m e) (Fin False k f)) (Fin False m' e') \<and>
    f64_le (Fin False m' e') (f64_mul (Fin False m e) (Fin False j g))"
proof
  obtain a b where p: "f64_mul (Fin False m e) (Fin False k f) = f64_round False a b" "0 < b"
    "ratio a b = (real m * 2 powi e) * (real k * 2 powi f)" by (rule f64_mul_round [of False m e False k f]) simp
  have "ratio a b \<le> c" using p(3) assms(2,4,5) by (simp only: mult_left_le)
  from f64r.rnd_upper [OF assms(1,4) p(2) this]
  show "f64_le (f64_mul (Fin False m e) (Fin False k f)) (Fin False m' e')"
    using p(1) assms(3) by (auto simp: f64_le_val simp del: f64_le.simps)
  obtain a b where q: "f64_mul (Fin False m e) (Fin False j g) = f64_round False a b" "0 < b"
    "ratio a b = (real m * 2 powi e) * (real j * 2 powi g)" by (rule f64_mul_round [of False m e False j g]) simp
  have "c * 1 \<le> c * (real j * 2 powi g)" using assms(4,6) by (intro mult_left_mono)
  then have "c \<le> ratio a b" using q(3) assms(2) by simp
  from f64r.rnd_lower [OF assms(1,4) q(2) this]
  show "f64_le (Fin False m' e') (f64_mul (Fin False m e) (Fin False j g))"
    using q(1) assms(3) by (auto simp: f64_le_val simp del: f64_le.simps(1))
qed

text \<open>Two rounded numbers in order: the exact ones are, up to the errors of the two roundings.\<close>

lemma rounded_le:
  assumes "0 < b" "0 < d" "f64_round False a b = Fin False m e" "f64_le (Fin False m e) (f64_round False n d)"
  shows "f64_round False n d = Inf False \<or>
    ratio a b \<le> ratio n d * (1 + 2 powi (- 51)) + 2 powi (- 1000)"
proof (cases "f64_round False n d")
  case (Fin s k f)
  then have s: "\<not> s" by (auto simp: f64_round_def Let_def split: if_splits prod.splits)
  with Fin have r: "f64_round False n d = Fin False k f" by simp
  have le: "real m * 2 powi e \<le> real k * 2 powi f" using assms(4) r by (simp add: f64_le_val del: f64_le.simps)
  define x where "x = ratio a b"
  define y where "y = ratio n d"
  have "0 \<le> x" "0 \<le> y" by (simp_all add: x_def y_def ratio_def)
  have "\<bar>real m * 2 powi e - x\<bar> \<le> x * 2 powi (- 53) + 2 powi (- 1075)" "\<bar>real k * 2 powi f - y\<bar> \<le> y * 2 powi (- 53) + 2 powi (- 1075)"
    using f64_round_error [OF assms(1,3)] f64_round_error [OF assms(2) r] by (simp_all add: x_def y_def)
  then have "x * (1 - 2 powi (- 53)) \<le> y * (1 + 2 powi (- 53)) + 2 * 2 powi (- 1075)" using le by (simp add: algebra_simps)
  then have "x * (1 - 2 powi (- 53)) * (1 + 2 powi (- 52)) \<le> (y * (1 + 2 powi (- 53)) + 2 * 2 powi (- 1075)) * (1 + 2 powi (- 52))"
    by (rule mult_right_mono) simp
  moreover have "x * 1 \<le> x * ((1 - 2 powi (- 53)) * (1 + 2 powi (- 52)))"
    using \<open>0 \<le> x\<close> by (intro mult_left_mono) (simp_all add: power_int_minus)
  moreover have "y * ((1 + 2 powi (- 53)) * (1 + 2 powi (- 52))) \<le> y * (1 + 2 powi (- 51))"
    using \<open>0 \<le> y\<close> by (intro mult_left_mono) (simp_all add: power_int_minus)
  moreover have "2 * 2 powi (- 1075) * (1 + 2 powi (- 52)) \<le> (2 :: real) powi (- 1000)"
  proof -
    have "(2 :: real) powi (- 1075) \<le> 2 powi (- 1003)" by (rule powi_le) simp
    moreover have "(2 :: real) powi (- 1000) = 2 powi (- 1003) * 8" using powi_shift [of "- 1000" "- 1003"] by simp
    moreover have "1 + (2 :: real) powi (- 52) \<le> 2" by (simp add: power_int_minus)
    ultimately show ?thesis using mult_mono [of "2 * (2 :: real) powi (- 1075)" "2 * 2 powi (- 1003)" "1 + 2 powi (- 52)" 2] by simp
  qed
  ultimately have "x \<le> y * (1 + 2 powi (- 51)) + 2 powi (- 1000)" by (simp add: algebra_simps)
  then show ?thesis by (simp add: x_def y_def)
next
  case (Inf s)
  then have "\<not> s" by (auto simp: f64_round_def Let_def split: if_splits prod.splits)
  then show ?thesis using Inf by simp
next
  case Nan
  then show ?thesis by (auto simp: f64_round_def Let_def split: if_splits prod.splits)
qed

text \<open>The comparison of both programs, with the values their factors have.\<close>

definition rate_check :: "nat \<Rightarrow> nat \<Rightarrow> duration \<Rightarrow> bool" where
  "rate_check cap sent elapsed =
     (let cap_bytes = f64_div (f64_of_nat cap) (f64_of_nat 8); rate = f64_div (f64_of_nat sent) (as_secs_f64 elapsed)
      in f64_le (f64_mul cap_bytes (Fin False 8106479329266893 (- 53))) rate \<and>
         f64_le rate (f64_mul cap_bytes (Fin False 4953959590107546 (- 52))))"

lemma cap_in_bytes:
  assumes "0 < cap" "cap < 2 ^ 53"
  obtains m e where "f64_div (f64_of_nat cap) (f64_of_nat 8) = Fin False m e" and "real m * 2 powi e = real cap / 8"
    and "representable (real cap / 8)"
proof -
  obtain m e where v: "f64_of_nat cap = Fin False m e" "real m * 2 powi e = real cap" by (rule f64_of_nat_exact [OF assms(2)])
  obtain m' e' where w: "f64_of_nat 8 = Fin False m' e'" "real m' * 2 powi e' = real 8" by (rule f64_of_nat_exact [of 8]) auto
  have "0 < m'" by (rule significand_pos [OF w(2)]) simp
  then obtain a b where q: "f64_div (Fin False m e) (Fin False m' e') = f64_round False a b" "0 < b"
    "ratio a b = (real m * 2 powi e) / (real m' * 2 powi e')" by (rule f64_div_round [of m' False m e False e']) simp
  have r: "representable (real cap / 8)" using representable_shift [OF assms(2), of "- 3"] by (simp add: power_int_minus field_simps)
  have "ratio a b = real cap / 8" using q(3) v(2) w(2) by simp
  then obtain m2 e2 where "f64_round False a b = Fin False m2 e2" "real m2 * 2 powi e2 = real cap / 8"
    using f64r.rnd_exact [OF _ q(2)] r by metis
  then show thesis using q(1) v(1) w(1) that r by metis
qed

lemma realized_rate:
  assumes "sent < 2 ^ 53" "0 < secs" "secs < 2 ^ 53"
  obtains a b where "f64_div (f64_of_nat sent) (as_secs_f64 (secs, 0)) = f64_round False a b" and "0 < b"
    and "ratio a b = real sent / real secs"
proof -
  obtain m e where v: "f64_of_nat sent = Fin False m e" "real m * 2 powi e = real sent" by (rule f64_of_nat_exact [OF assms(1)])
  obtain m' e' where w: "as_secs_f64 (secs, 0) = Fin False m' e'" "real m' * 2 powi e' = real secs" by (rule as_secs_whole [OF assms(2,3)])
  have "0 < m'" by (rule significand_pos [OF w(2) assms(2)])
  then obtain a b where q: "f64_div (Fin False m e) (Fin False m' e') = f64_round False a b" "0 < b"
    "ratio a b = (real m * 2 powi e) / (real m' * 2 powi e')" by (rule f64_div_round [of m' False m e False e']) simp
  then show thesis using that v w by simp
qed

lemma rate_check_accepts:
  assumes "0 < cap" "cap < 2 ^ 53" "0 < secs" "secs < 2 ^ 53" "sent < 2 ^ 53" and "8 * sent = cap * secs"
  shows "rate_check cap sent (secs, 0)"
proof -
  obtain m e where c: "f64_div (f64_of_nat cap) (f64_of_nat 8) = Fin False m e" "real m * 2 powi e = real cap / 8"
    "representable (real cap / 8)" by (rule cap_in_bytes [OF assms(1,2)])
  obtain a b where r: "f64_div (f64_of_nat sent) (as_secs_f64 (secs, 0)) = f64_round False a b" "0 < b"
    "ratio a b = real sent / real secs" by (rule realized_rate [OF assms(5,3,4)])
  have "8 * real sent = real cap * real secs" using assms(6) by (metis of_nat_mult of_nat_numeral)
  then have "ratio a b = real cap / 8" unfolding r(3) using assms(3) by (simp add: field_simps)
  then obtain m' e' where x: "f64_round False a b = Fin False m' e'" "real m' * 2 powi e' = real cap / 8"
    using f64r.rnd_exact [OF _ r(2)] c(3) by metis
  have "real 8106479329266893 * 2 powi (- 53) \<le> 1" "1 \<le> real 4953959590107546 * 2 powi (- 52)"
    by (simp_all add: power_int_minus)
  from rate_at_cap_accepted [OF c(3,2) x(2) _ this]
  show ?thesis using c(1) r(1) x(1) by (simp add: rate_check_def del: f64_mul.simps f64_le.simps)
qed

lemma rate_check_sound:
  assumes "0 < cap" "cap < 2 ^ 53" "0 < secs" "secs < 2 ^ 53" "sent < 2 ^ 53" and "rate_check cap sent (secs, 0)"
  shows "real cap / 8 * real secs * (89 / 100) \<le> real sent \<and> real sent \<le> real cap / 8 * real secs * (111 / 100)"
proof -
  obtain m e where c: "f64_div (f64_of_nat cap) (f64_of_nat 8) = Fin False m e" "real m * 2 powi e = real cap / 8"
    "representable (real cap / 8)" by (rule cap_in_bytes [OF assms(1,2)])
  obtain a b where r: "f64_div (f64_of_nat sent) (as_secs_f64 (secs, 0)) = f64_round False a b" "0 < b"
    "ratio a b = real sent / real secs" by (rule realized_rate [OF assms(5,3,4)])
  obtain p q where l: "f64_mul (Fin False m e) (Fin False 8106479329266893 (- 53)) = f64_round False p q" "0 < q"
    "ratio p q = (real m * 2 powi e) * (real 8106479329266893 * 2 powi (- 53))" by (rule f64_mul_pos)
  obtain p' q' where h: "f64_mul (Fin False m e) (Fin False 4953959590107546 (- 52)) = f64_round False p' q'" "0 < q'"
    "ratio p' q' = (real m * 2 powi e) * (real 4953959590107546 * 2 powi (- 52))" by (rule f64_mul_pos)
  have acc: "f64_le (f64_round False p q) (f64_round False a b)" "f64_le (f64_round False a b) (f64_round False p' q')"
    using assms(6) c(1) r(1) l(1) h(1) by (simp_all add: rate_check_def Let_def del: f64_mul.simps f64_le.simps)
  define C where "C = real cap / 8"
  define x where "x = real sent / real secs"
  have C: "1 / 8 \<le> C" using assms(1) by (simp add: C_def)
  have C': "C \<le> 2 ^ 60" using assms(2) by (simp add: C_def)
  have x: "0 \<le> x" "x \<le> 2 ^ 60"
  proof -
    have "real sent * 1 \<le> real sent * real secs" using assms(3) by (intro mult_left_mono) auto
    then have "x \<le> real sent" unfolding x_def using assms(3) by (simp add: divide_le_eq)
    moreover have "real sent < 2 ^ 53" using assms(5) by (metis of_nat_less_iff of_nat_numeral of_nat_power)
    ultimately show "x \<le> 2 ^ 60" by simp
  qed (simp add: x_def)
  have fin: "\<exists>m e. f64_round False n d = Fin False m e" if "0 < d" "ratio n d \<le> 2 ^ 61" for n d
    using f64r.rnd_upper [OF representable_shift [of 1 61] _ that(1), of n] that(2) by auto
  have low: "ratio p q = C * (8106479329266893 / 2 ^ 53)" and high: "ratio p' q' = C * (4953959590107546 / 2 ^ 52)"
    using l(3) h(3) c(2) by (simp_all add: C_def power_int_minus field_simps)
  have rab: "ratio a b = x" using r(3) by (simp add: x_def)
  have bounded: "ratio p q \<le> 2 ^ 61" "ratio p' q' \<le> 2 ^ 61" "ratio a b \<le> 2 ^ 61"
    unfolding low high rab using C C' x by simp_all
  obtain ml el where fl: "f64_round False p q = Fin False ml el" using fin [OF l(2) bounded(1)] by blast
  obtain mh eh where fh: "f64_round False p' q' = Fin False mh eh" using fin [OF h(2) bounded(2)] by blast
  obtain mx ex where fx: "f64_round False a b = Fin False mx ex" using fin [OF r(2) bounded(3)] by blast
  have tiny: "(2 :: real) powi (- 1000) \<le> 1 / 1048576" using powi_le [of "- 1000" "- 20"] by (simp add: power_int_minus)
  have le1: "ratio p q \<le> x * (1 + 2 powi (- 51)) + 2 powi (- 1000)"
    using rounded_le [OF l(2) r(2) fl acc(1) [unfolded fl]] unfolding fx rab by blast
  have le2: "x \<le> ratio p' q' * (1 + 2 powi (- 51)) + 2 powi (- 1000)"
    using rounded_le [OF r(2) h(2) fx acc(2) [unfolded fx]] unfolding fh rab by blast
  have eps: "(2 :: real) powi (- 51) = 1 / 2251799813685248" by (simp add: power_int_minus)
  have "C * (89 / 100) \<le> x" using le1 tiny C x(1) unfolding low eps by (simp add: algebra_simps)
  moreover have "x \<le> C * (111 / 100)" using le2 tiny C unfolding high eps by (simp add: algebra_simps)
  ultimately show ?thesis using assms(3) by (simp add: x_def C_def field_simps)
qed

lemma f64_div_pos:
  assumes "0 < n"
  obtains a b where "f64_div (Fin False m e) (Fin False n f) = f64_round False a b" and "0 < b"
    and "ratio a b = (real m * 2 powi e) / (real n * 2 powi f)"
  by (rule f64_div_round [OF assms, of False m e False f]) (simp only: not_False_eq_True simp_thms)

lemma to_u64_ge:
  assumes "0 < b" "real k \<le> ratio a b" "k < 2 ^ 53"
  shows "k \<le> f64_to_u64 (f64_round False a b)"
proof -
  have u: "int k \<le> int u64_max" using assms(3) by (simp add: u64_max_def)
  from f64r.rnd_lower [OF representable_nat [OF assms(3)] _ assms(1,2)]
  consider "f64_round False a b = Inf False" | m e where "f64_round False a b = Fin False m e" "real k \<le> real m * 2 powi e" by auto
  then show ?thesis
  proof cases
    case 2
    then have "int k \<le> \<lfloor>real m * 2 powi e\<rfloor>" by (simp add: le_floor_iff)
    then have "int k \<le> int (f64_to_u64 (Fin False m e))" using f64_to_u64_floor [of m e] u by linarith
    then show ?thesis using 2(1) by (simp del: f64_to_u64.simps)
  qed (use u in simp)
qed

end
