(* ===== verification/Bw_Cap_Test.thy ===== *)
theory Bw_Cap_Test
  imports Control_Plane Float64
begin

text \<open>
  The bandwidth test program (quelay-agent/src/bin/bw_cap_test): the controller CIC with its dispatch
  loop (cic.rs), the sender and receiver tuners it drives (tuner.rs), the callback handler that feeds
  it (callback.rs) and the verdict of \<open>real_main\<close> (mod.rs).

  A tuner is a state machine over the commands its channel brings; \<open>None\<close> is the channel closing. The
  controller is one over timer events and messages. The sockets between tuner and agent are left out:
  \<open>read\<close> is what the reading task returns. The elapsed times the tuners keep for the summary are left out. What the agents
  answer is an argument of \<open>real_main\<close>, which is modelled in its parts: the cap, the size of the payloads, the loop
  that starts the streams and the verdict.
\<close>

section \<open>Messages\<close>

datatype role = Sender | Receiver

datatype tuner_cmd =
    Port nat
  | CmdDone role nat nat
  | CmdFailed role string
  | Shutdown
  | Kill

datatype tuner_outcome = Pass | Fail string

record tuner_result =
  tr_uuid :: string
  tr_role :: role
  tr_outcome :: tuner_outcome
  tr_bytes :: nat
  tr_bytes_wire :: nat

datatype cic_msg =
    MsgStreamStarted role string nat
  | MsgStreamDone role string nat nat
  | MsgStreamFailed role string string
  | MsgLinkStatus role wire_link_state
  | MsgTunerFinished string role tuner_result

section \<open>Tuners\<close>

definition tuner_fail :: "string \<Rightarrow> role \<Rightarrow> string \<Rightarrow> tuner_result" where
  "tuner_fail uuid role reason = \<lparr>tr_uuid = uuid, tr_role = role, tr_outcome = Fail reason, tr_bytes = 0, tr_bytes_wire = 0\<rparr>"

definition killed :: "string \<Rightarrow> role \<Rightarrow> tuner_result" where
  "killed uuid role = tuner_fail uuid role ''killed by failsafe''"

definition disconnected :: "string \<Rightarrow> role \<Rightarrow> tuner_result" where
  "disconnected uuid role = tuner_fail uuid role ''CIC channel closed''"

text \<open>The phases name what the task waits for. \<open>tn_reports\<close> are the results sent to the controller.\<close>

datatype tuner_phase = WaitPort | WaitShutdown | WaitAgentDone | WaitReceiverDone | TunerEnded

record tuner =
  tn_uuid :: string
  tn_role :: role
  tn_phase :: tuner_phase
  tn_abort_sent :: bool
  tn_io_aborted :: bool
  tn_reports :: "tuner_result list"

definition tuner_new :: "string \<Rightarrow> role \<Rightarrow> tuner" where
  "tuner_new uuid role = \<lparr>tn_uuid = uuid, tn_role = role, tn_phase = WaitPort, tn_abort_sent = False,
     tn_io_aborted = False, tn_reports = []\<rparr>"

definition tuner_finish :: "tuner_result \<Rightarrow> tuner \<Rightarrow> tuner" where
  "tuner_finish result t = t\<lparr>tn_phase := TunerEnded, tn_reports := tn_reports t @ [result]\<rparr>"

fun wait_for_port :: "tuner_cmd option \<Rightarrow> tuner \<Rightarrow> tuner" where
  "wait_for_port (Some (Port p)) t = t\<lparr>tn_phase := (case tn_role t of Sender \<Rightarrow> WaitShutdown | Receiver \<Rightarrow> WaitReceiverDone)\<rparr>"
| "wait_for_port (Some Kill) t = tuner_finish (killed (tn_uuid t) (tn_role t)) t"
| "wait_for_port (Some other) t = t"
| "wait_for_port None t = tuner_finish (disconnected (tn_uuid t) (tn_role t)) t"

fun wait_for_shutdown :: "tuner_cmd option \<Rightarrow> tuner \<Rightarrow> tuner" where
  "wait_for_shutdown (Some Shutdown) t = t\<lparr>tn_abort_sent := True, tn_phase := WaitAgentDone\<rparr>"
| "wait_for_shutdown (Some Kill) t =
     tuner_finish (killed (tn_uuid t) Sender) (t\<lparr>tn_abort_sent := True, tn_io_aborted := True\<rparr>)"
| "wait_for_shutdown (Some (CmdDone r bytes wire)) t = t\<lparr>tn_abort_sent := True, tn_phase := WaitAgentDone\<rparr>"
| "wait_for_shutdown (Some (CmdFailed r reason)) t =
     tuner_finish (tuner_fail (tn_uuid t) Sender reason) (t\<lparr>tn_abort_sent := True, tn_io_aborted := True\<rparr>)"
| "wait_for_shutdown (Some (Port p)) t = t"
| "wait_for_shutdown None t =
     tuner_finish (disconnected (tn_uuid t) Sender) (t\<lparr>tn_abort_sent := True, tn_io_aborted := True\<rparr>)"

text \<open>With what \<open>spawn_sender\<close> does after it.\<close>

fun wait_for_agent_done :: "tuner_cmd option \<Rightarrow> tuner \<Rightarrow> tuner" where
  "wait_for_agent_done (Some (CmdDone r bytes wire)) t =
     tuner_finish \<lparr>tr_uuid = tn_uuid t, tr_role = Sender, tr_outcome = Pass, tr_bytes = bytes, tr_bytes_wire = wire\<rparr> t"
| "wait_for_agent_done (Some (CmdFailed r reason)) t = tuner_finish (tuner_fail (tn_uuid t) Sender reason) t"
| "wait_for_agent_done (Some Kill) t = tuner_finish (killed (tn_uuid t) Sender) t"
| "wait_for_agent_done (Some other) t = t"
| "wait_for_agent_done None t = tuner_finish (disconnected (tn_uuid t) Sender) t"

text \<open>With what \<open>spawn_receiver\<close> does after it: the bytes read count, 0 when reading failed.\<close>

definition receiver_result :: "nat option \<Rightarrow> tuner_outcome \<Rightarrow> tuner \<Rightarrow> tuner_result" where
  "receiver_result read outcome t = \<lparr>tr_uuid = tn_uuid t, tr_role = Receiver, tr_outcome = outcome,
     tr_bytes = unwrap_or read 0, tr_bytes_wire = 0\<rparr>"

fun wait_for_receiver_done :: "nat option \<Rightarrow> tuner_cmd option \<Rightarrow> tuner \<Rightarrow> tuner" where
  "wait_for_receiver_done read (Some (CmdDone r bytes wire)) t = tuner_finish (receiver_result read Pass t) t"
| "wait_for_receiver_done read (Some (CmdFailed r reason)) t =
     tuner_finish (receiver_result read (Fail reason) t) (t\<lparr>tn_io_aborted := True\<rparr>)"
| "wait_for_receiver_done read (Some Kill) t = tuner_finish (killed (tn_uuid t) Receiver) (t\<lparr>tn_io_aborted := True\<rparr>)"
| "wait_for_receiver_done read (Some other) t = t"
| "wait_for_receiver_done read None t = tuner_finish (disconnected (tn_uuid t) Receiver) (t\<lparr>tn_io_aborted := True\<rparr>)"

definition tuner_step :: "nat option \<Rightarrow> tuner_cmd option \<Rightarrow> tuner \<Rightarrow> tuner" where
  "tuner_step read cmd t =
     (case tn_phase t of
        WaitPort \<Rightarrow> wait_for_port cmd t
      | WaitShutdown \<Rightarrow> wait_for_shutdown cmd t
      | WaitAgentDone \<Rightarrow> wait_for_agent_done cmd t
      | WaitReceiverDone \<Rightarrow> wait_for_receiver_done read cmd t
      | TunerEnded \<Rightarrow> t)"

definition tuner_run :: "nat option \<Rightarrow> tuner_cmd option list \<Rightarrow> tuner \<Rightarrow> tuner" where
  "tuner_run read cmds t = foldl (\<lambda>t cmd. tuner_step read cmd t) t cmds"

section \<open>The controller\<close>

type_synonym job_key = "string \<times> role"

text \<open>A command channel: what was sent, and whether the tuner still receives.\<close>

record channel =
  ch_sent :: "tuner_cmd list"
  ch_open :: bool

record cic =
  ci_dispatch :: "(job_key \<times> channel) list"
  ci_pairs :: "(string \<times> string) list"
  ci_handles :: "job_key list"
  ci_results :: "tuner_result list"
  ci_ported :: "job_key list"
  ci_shutdown_sent :: bool
  ci_running :: bool

definition cic_new :: cic where
  "cic_new = \<lparr>ci_dispatch = [], ci_pairs = [], ci_handles = [], ci_results = [], ci_ported = [],
     ci_shutdown_sent = False, ci_running = True\<rparr>"

definition cic_register :: "string \<Rightarrow> role \<Rightarrow> cic \<Rightarrow> cic" where
  "cic_register uuid role c =
     c\<lparr>ci_dispatch := ((uuid, role), \<lparr>ch_sent = [], ch_open = True\<rparr>) # filter (\<lambda>e. fst e \<noteq> (uuid, role)) (ci_dispatch c),
       ci_handles := ci_handles c @ [(uuid, role)]\<rparr>"

definition register_pair :: "string \<Rightarrow> string \<Rightarrow> cic \<Rightarrow> cic" where
  "register_pair sender_uuid receiver_uuid c = c\<lparr>ci_pairs := ci_pairs c @ [(sender_uuid, receiver_uuid)]\<rparr>"

definition channel_send :: "tuner_cmd \<Rightarrow> channel \<Rightarrow> channel" where
  "channel_send cmd ch = (if ch_open ch then ch\<lparr>ch_sent := ch_sent ch @ [cmd]\<rparr> else ch)"

definition route :: "string \<Rightarrow> role \<Rightarrow> tuner_cmd \<Rightarrow> cic \<Rightarrow> cic" where
  "route uuid role cmd c =
     c\<lparr>ci_dispatch := map (\<lambda>(k, ch). (k, if k = (uuid, role) then channel_send cmd ch else ch)) (ci_dispatch c)\<rparr>"

definition shutdown_senders :: "cic \<Rightarrow> cic" where
  "shutdown_senders c = foldl (\<lambda>c (sender_uuid, _). route sender_uuid Sender Shutdown c) c (ci_pairs c)"

definition broadcast :: "tuner_cmd \<Rightarrow> cic \<Rightarrow> cic" where
  "broadcast cmd c = c\<lparr>ci_dispatch := map (\<lambda>(k, ch). (k, channel_send cmd ch)) (ci_dispatch c)\<rparr>"

fun cic_message :: "cic_msg \<Rightarrow> cic \<Rightarrow> cic" where
  "cic_message (MsgStreamStarted role uuid port) c =
     (if (uuid, role) \<in> set (ci_ported c) then c
      else route uuid role (Port port) (c\<lparr>ci_ported := (uuid, role) # ci_ported c\<rparr>))"
| "cic_message (MsgStreamDone role uuid bytes wire) c = route uuid role (CmdDone role bytes wire) c"
| "cic_message (MsgStreamFailed role uuid reason) c = route uuid role (CmdFailed role reason) c"
| "cic_message (MsgLinkStatus role state) c = c"
| "cic_message (MsgTunerFinished uuid role result) c =
     (let c1 = c\<lparr>ci_dispatch := filter (\<lambda>e. fst e \<noteq> (uuid, role)) (ci_dispatch c), ci_results := ci_results c @ [result]\<rparr>
      in if length (ci_results c1) = length (ci_handles c1) then c1\<lparr>ci_running := False\<rparr> else c1)"

datatype cic_event = FailsafeFired | DurationElapsed | Message cic_msg

definition cic_step :: "cic_event \<Rightarrow> cic \<Rightarrow> cic" where
  "cic_step ev c =
     (if \<not> ci_running c then c
      else case ev of
             FailsafeFired \<Rightarrow> (broadcast Kill c)\<lparr>ci_running := False\<rparr>
           | DurationElapsed \<Rightarrow>
               if ci_shutdown_sent c then c else (shutdown_senders c)\<lparr>ci_shutdown_sent := True\<rparr>
           | Message msg \<Rightarrow> cic_message msg c)"

definition cic_run :: "cic_event list \<Rightarrow> cic \<Rightarrow> cic" where
  "cic_run evs c = foldl (\<lambda>c ev. cic_step ev c) c evs"

text \<open>The callback handler of one side, and the channel into the controller (capacity 256): a message
  that does not fit is dropped.\<close>

datatype callback_event =
    CbPing
  | CbStreamStarted string wire_stream_info int
  | CbStreamProgress string
  | CbStreamDone string int int
  | CbStreamFailed string fail_reason string
  | CbLinkStatus wire_link_state
  | CbQueueStatus

fun callback_msg :: "role \<Rightarrow> callback_event \<Rightarrow> cic_msg option" where
  "callback_msg role CbPing = None"
| "callback_msg role (CbStreamStarted uuid info port) = Some (MsgStreamStarted role uuid (as_u16 (as_u64 port)))"
| "callback_msg role (CbStreamProgress uuid) = None"
| "callback_msg role (CbStreamDone uuid bytes wire) = Some (MsgStreamDone role uuid (as_u64 bytes) (as_u64 wire))"
| "callback_msg role (CbStreamFailed uuid code reason) = Some (MsgStreamFailed role uuid reason)"
| "callback_msg role (CbLinkStatus state) = Some (MsgLinkStatus role state)"
| "callback_msg role CbQueueStatus = None"

definition forward :: "cic_msg option \<Rightarrow> cic_msg list \<Rightarrow> cic_msg list" where
  "forward msg queue = (case msg of Some m \<Rightarrow> if length queue < 256 then queue @ [m] else queue | None \<Rightarrow> queue)"

section \<open>The verdict\<close>

definition sender_total :: "(tuner_result \<Rightarrow> nat) \<Rightarrow> tuner_result list \<Rightarrow> nat" where
  "sender_total f results = foldl add_u64 0 (map f (filter (\<lambda>r. tr_role r = Sender) results))"

definition BW_TOLERANCE :: f64 where "BW_TOLERANCE = f64_round False 1 10"

definition assert_aggregate_bw :: "tuner_result list \<Rightarrow> nat \<Rightarrow> duration \<Rightarrow> f64 \<Rightarrow> string + unit" where
  "assert_aggregate_bw results cap_bits_ps wall_elapsed tolerance =
     (let total_bytes = sender_total tr_bytes results;
          cap_bytes_ps = f64_div (f64_of_nat cap_bits_ps) (f64_of_nat 8);
          realized_bytes_ps = f64_div (f64_of_nat total_bytes) (as_secs_f64 wall_elapsed);
          low = f64_mul cap_bytes_ps (f64_sub (f64_of_nat 1) tolerance);
          high = f64_mul cap_bytes_ps (f64_add (f64_of_nat 1) tolerance)
      in if f64_le low realized_bytes_ps \<and> f64_le realized_bytes_ps high then Inr ()
         else Inl ''Aggregate BW outside tolerance'')"

definition is_failure :: "tuner_result \<Rightarrow> bool" where
  "is_failure r = (case tr_outcome r of Fail reason \<Rightarrow> True | Pass \<Rightarrow> False)"

definition verdict :: "duration \<Rightarrow> nat option \<Rightarrow> tuner_result list \<Rightarrow> string + unit" where
  "verdict wall_elapsed cap_bps results =
     (if filter is_failure results \<noteq> [] then Inl ''tuner(s) failed''
      else case cap_bps of
             Some cap \<Rightarrow> assert_aggregate_bw results cap wall_elapsed BW_TOLERANCE
           | None \<Rightarrow> Inr ())"

section \<open>The run\<close>

text \<open>The cap as the agent reports it (an i64, 0 or less for none), and the payload of each stream.\<close>

definition query_cap :: "string + int \<Rightarrow> string + nat option" where
  "query_cap answer =
     (case answer of
        Inl e \<Rightarrow> Inl e
      | Inr cap_bps \<Rightarrow> Inr (if cap_bps \<le> 0 then None else Some (as_u64 cap_bps)))"

definition PAYLOAD_HEADROOM :: f64 where "PAYLOAD_HEADROOM = f64_of_nat 4"
definition FALLBACK_PAYLOAD_BYTES :: nat where "FALLBACK_PAYLOAD_BYTES = 32 * 1024 * 1024"

definition payload_bytes :: "nat option \<Rightarrow> nat \<Rightarrow> nat" where
  "payload_bytes cap_bps duration_secs =
     (case cap_bps of
        None \<Rightarrow> FALLBACK_PAYLOAD_BYTES
      | Some cap \<Rightarrow>
          let bytes_ps = f64_div (f64_of_nat cap) (f64_of_nat 8)
          in f64_to_u64 (f64_mul (f64_mul bytes_ps (f64_of_nat duration_secs)) PAYLOAD_HEADROOM))"

text \<open>The loop that registers two tuners per stream and starts it; each stream comes with its identifier
  and what \<open>stream_start\<close> returns for it.\<close>

fun start_streams :: "(string \<times> (thrift_error + wire_start_return)) list \<Rightarrow> cic \<Rightarrow> string + cic" where
  "start_streams [] c = Inr c"
| "start_streams ((uuid, answer) # rest) c =
     (let c1 = register_pair uuid uuid (cic_register uuid Receiver (cic_register uuid Sender c))
      in case answer of
           Inl e \<Rightarrow> Inl ''Error in sender_agent.stream_start''
         | Inr res \<Rightarrow>
             if wr_status res = Some RUNNING then start_streams rest c1 else Inl ''stream_start failed'')"

section \<open>Lemmas\<close>

text \<open>A tuner reports exactly once, when it ends, and under its own name.\<close>

definition tuner_inv :: "string \<Rightarrow> role \<Rightarrow> tuner \<Rightarrow> bool" where
  "tuner_inv uuid role t \<longleftrightarrow> tn_uuid t = uuid \<and> tn_role t = role \<and>
     (if tn_phase t = TunerEnded then \<exists>res. tn_reports t = [res] \<and> tr_uuid res = uuid \<and> tr_role res = role else tn_reports t = []) \<and>
     (tn_phase t = WaitShutdown \<or> tn_phase t = WaitAgentDone \<longrightarrow> role = Sender) \<and>
     (tn_phase t = WaitReceiverDone \<longrightarrow> role = Receiver)"

lemmas tuner_defs = tuner_step_def tuner_finish_def tuner_fail_def killed_def disconnected_def receiver_result_def

lemma tuner_inv_step: "tuner_inv uuid role t \<Longrightarrow> tuner_inv uuid role (tuner_step read cmd t)"
proof (cases cmd)
  case None
  then show "tuner_inv uuid role t \<Longrightarrow> tuner_inv uuid role (tuner_step read cmd t)"
    by (cases "tn_phase t") (auto simp: tuner_defs tuner_inv_def)
next
  case (Some c)
  then show "tuner_inv uuid role t \<Longrightarrow> tuner_inv uuid role (tuner_step read cmd t)"
    by (cases "tn_phase t"; cases c) (auto simp: tuner_defs tuner_inv_def split: role.splits)
qed

lemma tuner_ended_step: "tn_phase t = TunerEnded \<Longrightarrow> tuner_step read cmd t = t"
  by (simp add: tuner_step_def)

lemma tuner_ended_run: "tn_phase t = TunerEnded \<Longrightarrow> tuner_run read cmds t = t"
  by (induction cmds) (simp_all add: tuner_run_def tuner_ended_step)

lemma tuner_kill: "cmd = Some Kill \<or> cmd = None \<Longrightarrow> tn_phase (tuner_step read cmd t) = TunerEnded"
  by (cases "tn_phase t") (auto simp: tuner_defs)

lemma tuner_inv_run: "tuner_inv uuid role t \<Longrightarrow> tuner_inv uuid role (tuner_run read cmds t)"
  by (induction cmds arbitrary: t) (simp_all add: tuner_run_def tuner_inv_step)

lemma tuner_run_append: "tuner_run read (xs @ ys) t = tuner_run read ys (tuner_run read xs t)"
  by (simp add: tuner_run_def)

lemma tuner_run_killed:
  assumes "Some Kill \<in> set cmds \<or> None \<in> set cmds"
  shows "tn_phase (tuner_run read cmds t) = TunerEnded"
proof -
  from assms obtain cmd where "cmd \<in> set cmds" and k: "cmd = Some Kill \<or> cmd = None" by blast
  then obtain xs ys where "cmds = xs @ cmd # ys" by (meson split_list)
  then have "tuner_run read cmds t = tuner_run read ys (tuner_step read cmd (tuner_run read xs t))"
    by (simp add: tuner_run_def)
  then show ?thesis using tuner_kill [OF k] by (simp add: tuner_ended_run)
qed

text \<open>What the controller's operations leave alone.\<close>

lemma route_frame [simp]:
  "ci_results (route u r cmd c) = ci_results c" "ci_handles (route u r cmd c) = ci_handles c"
  "ci_running (route u r cmd c) = ci_running c"
  by (simp_all add: route_def)

lemma shutdown_senders_frame [simp]:
  "ci_results (shutdown_senders c) = ci_results c" "ci_handles (shutdown_senders c) = ci_handles c"
  "ci_running (shutdown_senders c) = ci_running c"
proof -
  have "ci_results (foldl (\<lambda>c (s, _). route s Sender Shutdown c) c ps) = ci_results c \<and>
      ci_handles (foldl (\<lambda>c (s, _). route s Sender Shutdown c) c ps) = ci_handles c \<and>
      ci_running (foldl (\<lambda>c (s, _). route s Sender Shutdown c) c ps) = ci_running c" for ps :: "(string \<times> string) list"
    by (induction ps arbitrary: c) (simp_all add: case_prod_beta)
  then show "ci_results (shutdown_senders c) = ci_results c" "ci_handles (shutdown_senders c) = ci_handles c"
    "ci_running (shutdown_senders c) = ci_running c" by (simp_all add: shutdown_senders_def)
qed

lemma cic_stopped: "\<not> ci_running c \<Longrightarrow> cic_run evs c = c"
  by (induction evs) (simp_all add: cic_run_def cic_step_def)

text \<open>The results reported in a sequence of events.\<close>

fun finished_of :: "cic_event \<Rightarrow> tuner_result list" where
  "finished_of (Message (MsgTunerFinished u r result)) = [result]"
| "finished_of ev = []"

definition finished_in :: "cic_event list \<Rightarrow> tuner_result list" where
  "finished_in evs = concat (map finished_of evs)"

lemma finished_in_simps [simp]: "finished_in [] = []" "finished_in (ev # evs) = finished_of ev @ finished_in evs"
  by (simp_all add: finished_in_def)

lemma cic_step_other:
  assumes "ci_running c" "ev \<noteq> FailsafeFired" "finished_of ev = []"
  shows "ci_running (cic_step ev c)" "ci_results (cic_step ev c) = ci_results c" "ci_handles (cic_step ev c) = ci_handles c"
proof -
  have "ci_running (cic_step ev c) \<and> ci_results (cic_step ev c) = ci_results c \<and> ci_handles (cic_step ev c) = ci_handles c"
  proof (cases ev)
    case (Message msg)
    then show ?thesis using assms by (cases msg) (auto simp: cic_step_def)
  qed (use assms in \<open>auto simp: cic_step_def\<close>)
  then show "ci_running (cic_step ev c)" "ci_results (cic_step ev c) = ci_results c" "ci_handles (cic_step ev c) = ci_handles c"
    by auto
qed

lemma cic_run_results:
  assumes "FailsafeFired \<notin> set evs" "ci_running c" "length (ci_results c) < length (ci_handles c)"
  shows "ci_results (cic_run evs c) = take (length (ci_handles c)) (ci_results c @ finished_in evs) \<and>
    ci_running (cic_run evs c) = (length (ci_results c) + length (finished_in evs) < length (ci_handles c))"
  using assms
proof (induction evs arbitrary: c)
  case Nil
  then show ?case by (simp add: cic_run_def)
next
  case (Cons ev evs)
  let ?d = "cic_step ev c"
  have run: "cic_run (ev # evs) c = cic_run evs ?d" by (simp add: cic_run_def)
  show ?case
  proof (cases "finished_of ev = []")
    case True
    then show ?thesis using Cons.IH [of ?d] cic_step_other [OF Cons.prems(2) _ True] Cons.prems run by auto
  next
    case False
    then obtain u r result where ev: "ev = Message (MsgTunerFinished u r result)"
      by (cases ev rule: finished_of.cases) auto
    show ?thesis
    proof (cases "Suc (length (ci_results c)) = length (ci_handles c)")
      case True
      then have "\<not> ci_running ?d" "ci_results ?d = ci_results c @ [result]" using ev Cons.prems by (simp_all add: cic_step_def Let_def)
      then show ?thesis using cic_stopped [of ?d evs] run ev True [symmetric] by (simp add: Suc_diff_le)
    next
      case False
      then have "ci_running ?d" "ci_results ?d = ci_results c @ [result]" "ci_handles ?d = ci_handles c"
        using ev Cons.prems by (simp_all add: cic_step_def Let_def)
      then show ?thesis using Cons.IH [of ?d] Cons.prems False run ev by simp
    qed
  qed
qed

section \<open>Properties\<close>

text \<open>A tuner's report. Whatever commands reach it, a tuner reports to the controller exactly when it ends,
  once, under its own identifier and role; and a \<open>Kill\<close> or the loss of its command channel ends it in
  every phase.\<close>

theorem tuner_reports_once:
  assumes "t = tuner_run read cmds (tuner_new uuid role)"
  shows "(if tn_phase t = TunerEnded then \<exists>res. tn_reports t = [res] \<and> tr_uuid res = uuid \<and> tr_role res = role
      else tn_reports t = []) \<and>
    (Some Kill \<in> set cmds \<or> None \<in> set cmds \<longrightarrow> tn_phase t = TunerEnded)"
proof -
  have "tuner_inv uuid role (tuner_new uuid role)" by (simp add: tuner_inv_def tuner_new_def)
  then have "tuner_inv uuid role t" unfolding assms by (rule tuner_inv_run)
  then show ?thesis using tuner_run_killed [of cmds read "tuner_new uuid role"] assms by (simp add: tuner_inv_def)
qed

theorem tuner_reports_once_witness:
  "tn_phase (tuner_run None [Some (Port 5000), Some Shutdown, Some Kill] (tuner_new ''u'' Sender)) = TunerEnded"
  using tuner_reports_once [OF refl, of None "[Some (Port 5000), Some Shutdown, Some Kill]" "''u''" Sender] by simp

text \<open>What the controller collects. Unless the failsafe fires, it keeps the results of the tuners in the
  order they arrive, and its loop ends exactly when every registered tuner has reported.\<close>

theorem cic_collects_results:
  assumes "FailsafeFired \<notin> set evs" "ci_running c" "ci_results c = []" "ci_handles c \<noteq> []" and "c' = cic_run evs c"
  shows "ci_results c' = take (length (ci_handles c)) (finished_in evs) \<and>
    (ci_running c' \<longleftrightarrow> length (finished_in evs) < length (ci_handles c))"
  using cic_run_results [OF assms(1,2)] assms(3-5) by auto

definition demo_cic :: cic where
  "demo_cic = register_pair ''u'' ''u'' (cic_register ''u'' Receiver (cic_register ''u'' Sender cic_new))"

lemma demo_cic_ready: "ci_running demo_cic" "ci_results demo_cic = []" "length (ci_handles demo_cic) = 2"
  by (simp_all add: demo_cic_def register_pair_def cic_register_def cic_new_def)

theorem cic_collects_results_witness:
  "let r = (\<lambda>role. \<lparr>tr_uuid = ''u'', tr_role = role, tr_outcome = Pass, tr_bytes = 9, tr_bytes_wire = 11\<rparr>)
   in \<not> ci_running (cic_run [DurationElapsed, Message (MsgTunerFinished ''u'' Sender (r Sender)),
        Message (MsgTunerFinished ''u'' Receiver (r Receiver))] demo_cic)"
proof -
  have "ci_handles demo_cic \<noteq> []" using demo_cic_ready(3) by auto
  note c = cic_collects_results [OF _ demo_cic_ready(1,2) this refl]
  show ?thesis unfolding Let_def by (subst c [THEN conjunct2]) (simp_all add: demo_cic_ready)
qed

text \<open>The failsafe hides what did not finish. When it fires the loop ends at once and the results of the
  tuners it kills are never collected, so the verdict sees only the tuners that had finished before. If
  none of those failed, a run without a bandwidth cap passes, however many streams never finished.\<close>

theorem failsafe_verdict_passes:
  assumes "FailsafeFired \<notin> set evs" "ci_running c" "ci_results c = []" "length (finished_in evs) < length (ci_handles c)"
    and "\<forall>r \<in> set (finished_in evs). \<not> is_failure r"
  shows "ci_results (cic_run (evs @ FailsafeFired # later) c) = finished_in evs \<and>
    verdict wall_elapsed None (ci_results (cic_run (evs @ FailsafeFired # later) c)) = Inr ()"
proof -
  have "ci_handles c \<noteq> []" using assms(4) by auto
  then have "ci_results (cic_run evs c) = finished_in evs" "ci_running (cic_run evs c)"
    using cic_run_results [OF assms(1,2)] assms(3,4) by auto
  moreover have "cic_run (evs @ FailsafeFired # later) c = cic_run later (cic_step FailsafeFired (cic_run evs c))"
    by (simp add: cic_run_def)
  ultimately have r: "ci_results (cic_run (evs @ FailsafeFired # later) c) = finished_in evs"
    by (simp add: cic_step_def broadcast_def cic_stopped)
  moreover have "filter is_failure (finished_in evs) = []" using assms(5) by (simp add: filter_empty_conv)
  ultimately show ?thesis by (simp add: verdict_def)
qed

theorem failsafe_verdict_passes_witness:
  "verdict (5, 0) None (ci_results (cic_run ([DurationElapsed] @ FailsafeFired # []) demo_cic)) = Inr ()"
  by (rule failsafe_verdict_passes [THEN conjunct2]) (simp_all add: demo_cic_ready)

text \<open>The two factors of the tolerance test.\<close>

lemma tolerance_factors:
  "f64_sub (f64_of_nat 1) BW_TOLERANCE = Fin False 8106479329266893 (- 53)"
  "f64_add (f64_of_nat 1) BW_TOLERANCE = Fin False 4953959590107546 (- 52)"
  by (simp_all add: f64_sub_def f64_of_nat_def BW_TOLERANCE_def f64_round_def floor_log2_def scale_def half_even_def
      bits.simps aligned_def signed_def)

lemma assert_aggregate_bw_check:
  "assert_aggregate_bw results cap elapsed BW_TOLERANCE = Inr () \<longleftrightarrow> rate_check cap (sender_total tr_bytes results) elapsed"
  by (simp add: assert_aggregate_bw_def rate_check_def tolerance_factors [unfolded One_nat_def] Let_def del: f64_mul.simps f64_le.simps)



text \<open>The payload of a stream lasts four times as long as the run. It is the bytes the whole cap carries in
  four times the duration, exactly, although it is computed with floating point numbers (cap times
  duration below 2^53).\<close>

theorem payload_outlasts_run:
  assumes "0 < cap" "0 < secs" "cap * secs < 2 ^ 53"
  shows "payload_bytes (Some cap) secs = 4 * cap * secs div 8"
proof -
  have small: "cap < 2 ^ 53" "secs < 2 ^ 53" by (rule factor_small [OF assms(3)], use assms(1,2) in simp)+
  obtain m e where c: "f64_div (f64_of_nat cap) (f64_of_nat 8) = Fin False m e" "real m * 2 powi e = real cap / 8"
    by (rule cap_in_bytes [OF assms(1) small(1)])
  obtain m1 e1 where s: "f64_of_nat secs = Fin False m1 e1" "real m1 * 2 powi e1 = real secs" by (rule f64_of_nat_exact [OF small(2)])
  define P where "P = real (cap * secs)"
  have "representable (P * 2 powi (- 3))" unfolding P_def by (rule representable_shift [OF assms(3)]) simp_all
  then have "representable (real cap / 8 * real secs)" by (simp add: P_def power_int_minus)
  then obtain m2 e2 where x: "f64_mul (Fin False m e) (Fin False m1 e1) = Fin False m2 e2"
    "real m2 * 2 powi e2 = real cap / 8 * real secs" by (rule f64_mul_exact [OF c(2) s(2)])
  obtain m3 e3 where h: "f64_of_nat 4 = Fin False m3 e3" "real m3 * 2 powi e3 = real 4" by (rule f64_of_nat_exact [of 4]) auto
  have "representable (P * 2 powi (- 1))" unfolding P_def by (rule representable_shift [OF assms(3)]) simp_all
  then have "representable (real cap / 8 * real secs * real 4)" by (simp add: P_def power_int_minus)
  then obtain m4 e4 where y: "f64_mul (Fin False m2 e2) (Fin False m3 e3) = Fin False m4 e4"
    "real m4 * 2 powi e4 = real cap / 8 * real secs * real 4" by (rule f64_mul_exact [OF x(2) h(2)])
  have "real m4 * 2 powi e4 = real (cap * secs) / real 2" unfolding y(2) by simp
  then have "\<lfloor>real m4 * 2 powi e4\<rfloor> = int (cap * secs div 2)" by (simp only: floor_divide_of_nat_eq)
  moreover have "cap * secs div 2 \<le> u64_max" using assms(3) by (simp add: u64_max_def)
  ultimately have "f64_to_u64 (Fin False m4 e4) = cap * secs div 2" using f64_to_u64_floor [of m4 e4] by (simp del: f64_to_u64.simps)
  moreover have "4 * cap * secs div 8 = cap * secs div 2" by (simp add: mult.assoc div_mult2_eq [symmetric])
  moreover have "payload_bytes (Some cap) secs = f64_to_u64 (Fin False m4 e4)"
    unfolding payload_bytes_def PAYLOAD_HEADROOM_def Let_def option.case c(1) s(1) x(1) h(1) y(1) by (rule refl)
  ultimately show ?thesis by simp
qed

theorem payload_outlasts_run_witness: "payload_bytes (Some 10000000) 5 = 25000000"
  using payload_outlasts_run [of 10000000 5] by simp

end
