(* ===== verification/Bandwidth.thy ===== *)
theory Bandwidth
  imports Float64 Control_Plane
begin

text \<open>
  The bandwidth option of the command line (quelay-agent/src/config.rs): \<open>parse_bandwidth\<close>, which clap
  calls on the text of \<open>--bw-cap-bps\<close>, and \<open>bw_cap_display\<close>, which prints the cap, both down to their
  characters and their floating point arithmetic.

  The text is taken to be ASCII. \<open>str::parse\<close> for \<open>f64\<close> is only called on text before the first
  letter, so exponents, \<open>inf\<close> and \<open>nan\<close> cannot occur in it: a number is a sign, digits and at most one
  point, with a digit on some side of it.
\<close>

section \<open>Characters and strings\<close>

definition is_alphabetic :: "char \<Rightarrow> bool" where
  "is_alphabetic c \<longleftrightarrow> (let n = of_char c :: nat in 65 \<le> n \<and> n \<le> 90 \<or> 97 \<le> n \<and> n \<le> 122)"

definition is_whitespace :: "char \<Rightarrow> bool" where
  "is_whitespace c \<longleftrightarrow> (let n = of_char c :: nat in 9 \<le> n \<and> n \<le> 13 \<or> n = 32)"

definition is_digit :: "char \<Rightarrow> bool" where
  "is_digit c \<longleftrightarrow> (let n = of_char c :: nat in 48 \<le> n \<and> n \<le> 57)"

definition ascii_lower :: "char \<Rightarrow> char" where
  "ascii_lower c = (let n = of_char c :: nat in if 65 \<le> n \<and> n \<le> 90 then char_of (n + 32) else c)"

definition trim :: "string \<Rightarrow> string" where
  "trim s = rev (dropWhile is_whitespace (rev (dropWhile is_whitespace s)))"

definition digit_value :: "char \<Rightarrow> nat" where
  "digit_value c = of_char c - 48"

definition digit_char :: "nat \<Rightarrow> char" where
  "digit_char d = char_of (48 + d)"

definition decimal_value :: "string \<Rightarrow> nat" where
  "decimal_value ds = foldl (\<lambda>a c. 10 * a + digit_value c) 0 ds"

fun show_nat :: "nat \<Rightarrow> string" where
  "show_nat n = (if n < 10 then [digit_char n] else show_nat (n div 10) @ [digit_char (n mod 10)])"

declare show_nat.simps [simp del]

text \<open>The number as a fraction: its digits over a power of ten.\<close>

definition parse_decimal :: "string \<Rightarrow> (nat \<times> nat) option" where
  "parse_decimal s =
     (let ip = takeWhile is_digit s
      in case dropWhile is_digit s of
           [] \<Rightarrow> if ip = [] then None else Some (decimal_value ip, 1)
         | c # fp \<Rightarrow>
             if c = CHR ''.'' \<and> list_all is_digit fp \<and> (ip \<noteq> [] \<or> fp \<noteq> [])
             then Some (decimal_value (ip @ fp), 10 ^ length fp) else None)"

definition parse_f64 :: "string \<Rightarrow> f64 option" where
  "parse_f64 s =
     (case s of
        [] \<Rightarrow> None
      | c # r \<Rightarrow>
          if c = CHR ''-'' then map_option (\<lambda>(n, d). f64_round True n d) (parse_decimal r)
          else if c = CHR ''+'' then map_option (\<lambda>(n, d). f64_round False n d) (parse_decimal r)
          else map_option (\<lambda>(n, d). f64_round False n d) (parse_decimal s))"

text \<open>\<open>{:.1}\<close> of a finite number that is not negative.\<close>

fun format_1 :: "f64 \<Rightarrow> string" where
  "format_1 (Fin s m e) =
     (let (a, b) = scale e m 1; t = half_even (10 * a) b
      in show_nat (t div 10) @ ''.'' @ [digit_char (t mod 10)])"
| "format_1 (Inf s) = ''inf''"
| "format_1 Nan = ''NaN''"

section \<open>The option\<close>

definition unit_multiplier :: "string \<Rightarrow> nat option" where
  "unit_multiplier u =
     (let u = map ascii_lower u
      in if u = ''kbps'' then Some 1000
         else if u = ''mbps'' then Some 1000000
         else if u = ''gbps'' then Some 1000000000
         else None)"

definition parse_bandwidth :: "string \<Rightarrow> string + nat" where
  "parse_bandwidth s =
     (let s = trim s
      in case position is_alphabetic s of
           None \<Rightarrow> Inl ''missing unit''
         | Some pos \<Rightarrow>
             let num = trim (take pos s); unit = trim (drop pos s)
             in case parse_f64 num of
                  None \<Rightarrow> Inl ''invalid number''
                | Some value \<Rightarrow>
                    (case unit_multiplier unit of
                       None \<Rightarrow> Inl ''unknown unit''
                     | Some multiplier \<Rightarrow>
                         if f64_is_zero value then Inl ''bandwidth must be greater than zero''
                         else Inr (f64_to_u64 (f64_mul value (f64_of_nat multiplier)))))"

definition bw_cap_display :: "nat option \<Rightarrow> string" where
  "bw_cap_display cap =
     (case cap of
        None \<Rightarrow> ''uncapped''
      | Some bps \<Rightarrow>
          if 1000000000 \<le> bps then format_1 (f64_div (f64_of_nat bps) (f64_of_nat 1000000000)) @ '' Gbps''
          else if 1000000 \<le> bps then format_1 (f64_div (f64_of_nat bps) (f64_of_nat 1000000)) @ '' Mbps''
          else format_1 (f64_div (f64_of_nat bps) (f64_of_nat 1000)) @ '' Kbps'')"

section \<open>Lemmas\<close>

lemma char_of_digit: "d < 10 \<Longrightarrow> of_char (digit_char d) = 48 + d"
  by (simp add: digit_char_def)

lemma digit_char_facts [simp]:
  assumes "d < 10"
  shows "is_digit (digit_char d)" "\<not> is_alphabetic (digit_char d)" "\<not> is_whitespace (digit_char d)"
    "digit_value (digit_char d) = d"
  using assms by (simp_all add: is_digit_def is_alphabetic_def is_whitespace_def digit_value_def char_of_digit Let_def)

lemma point_facts [simp]: "\<not> is_digit CHR ''.''" "\<not> is_alphabetic CHR ''.''" "\<not> is_whitespace CHR ''.''"
  "\<not> is_digit CHR ''-''" "\<not> is_alphabetic CHR ''-''" "\<not> is_whitespace CHR ''-''"
  by (simp_all add: is_digit_def is_alphabetic_def is_whitespace_def)

lemma alphabetic_not_whitespace: "is_alphabetic c \<Longrightarrow> \<not> is_whitespace c"
  by (auto simp: is_alphabetic_def is_whitespace_def Let_def)

lemma is_digit_facts: "is_digit c \<Longrightarrow> \<not> is_alphabetic c \<and> \<not> is_whitespace c \<and> c \<noteq> CHR ''-'' \<and> c \<noteq> CHR ''+'' \<and> c \<noteq> CHR ''.''"
  by (auto simp: is_alphabetic_def is_whitespace_def is_digit_def Let_def)

lemma show_nat_digits: "list_all is_digit (show_nat n) \<and> show_nat n \<noteq> []"
proof (induction n rule: show_nat.induct)
  case (1 n)
  then show ?case by (subst (1 2) show_nat.simps) (auto simp: list_all_iff)
qed

lemma decimal_value_snoc: "decimal_value (ds @ [c]) = 10 * decimal_value ds + digit_value c"
  by (simp add: decimal_value_def)

lemma decimal_value_show_nat [simp]: "decimal_value (show_nat n) = n"
proof (induction n rule: show_nat.induct)
  case (1 n)
  show ?case
  proof (cases "n < 10")
    case True
    then show ?thesis by (simp add: show_nat.simps decimal_value_def)
  next
    case False
    then have "show_nat n = show_nat (n div 10) @ [digit_char (n mod 10)]" by (subst show_nat.simps) simp
    then show ?thesis using 1 False by (simp add: decimal_value_snoc)
  qed
qed

lemma trim_core:
  assumes "set a \<subseteq> Collect is_whitespace" "set c \<subseteq> Collect is_whitespace"
    and "x \<noteq> []" "\<not> is_whitespace (hd x)" "\<not> is_whitespace (last x)"
  shows "trim (a @ x @ c) = x"
proof -
  have "dropWhile is_whitespace (a @ x @ c) = x @ c"
    using assms(1,3,4) by (cases x) (auto simp: dropWhile_append1 dropWhile_append2 subset_iff)
  moreover have "dropWhile is_whitespace (rev c @ rev x) = rev x"
  proof -
    have "dropWhile is_whitespace (rev c @ rev x) = dropWhile is_whitespace (rev x)"
      by (rule dropWhile_append2) (use assms(2) in auto)
    then show ?thesis using assms(3,5) by (cases x rule: rev_cases) auto
  qed
  ultimately show ?thesis by (simp add: trim_def)
qed

lemma position_append_alpha:
  assumes "\<forall>c \<in> set x. \<not> p c" "y \<noteq> []" "p (hd y)"
  shows "position p (x @ y) = Some (length x)"
  using assms by (induction x) (auto simp: neq_Nil_conv)

text \<open>The text is white space, a number, white space, a unit and white space.\<close>

definition spaces :: "string \<Rightarrow> bool" where
  "spaces a \<longleftrightarrow> set a \<subseteq> Collect is_whitespace"

lemma unit_letters:
  assumes "unit_multiplier u = Some k"
  shows "u \<noteq> [] \<and> is_alphabetic (hd u) \<and> \<not> is_whitespace (last u) \<and> k \<in> {1000, 1000000, 1000000000}"
proof -
  have low: "is_alphabetic c" if "ascii_lower c = d" "is_alphabetic d" for c d
    using that by (auto simp: ascii_lower_def is_alphabetic_def Let_def split: if_splits)
  from assms have "map ascii_lower u \<in> {''kbps'', ''mbps'', ''gbps''}" and k: "k \<in> {1000, 1000000, 1000000000}"
    by (auto simp: unit_multiplier_def Let_def split: if_splits)
  then obtain c1 c2 c3 c4 where u: "u = [c1, c2, c3, c4]" "ascii_lower c4 = CHR ''s''"
    "ascii_lower c1 \<in> {CHR ''k'', CHR ''m'', CHR ''g''}" by (auto simp: map_eq_Cons_conv)
  have "is_alphabetic c4" by (rule low [OF u(2)]) (simp add: is_alphabetic_def)
  moreover have "is_alphabetic c1" using u(3) by (rule_tac low [OF refl]) (auto simp: is_alphabetic_def)
  ultimately show ?thesis using u(1) k alphabetic_not_whitespace by simp
qed

lemma parse_bandwidth_eval:
  assumes sp: "spaces a" "spaces b" "spaces c" and u: "unit_multiplier u = Some k"
    and x: "x \<noteq> []" "\<forall>ch \<in> set x. \<not> is_alphabetic ch \<and> \<not> is_whitespace ch" and v: "parse_f64 x = Some value"
  shows "parse_bandwidth (a @ x @ b @ u @ c) =
    (if f64_is_zero value then Inl ''bandwidth must be greater than zero'' else Inr (f64_to_u64 (f64_mul value (f64_of_nat k))))"
proof -
  note ul = unit_letters [OF u]
  have t: "trim (a @ (x @ b @ u) @ c) = x @ b @ u"
    using sp x ul by (intro trim_core) (auto simp: spaces_def)
  have "\<forall>ch \<in> set (x @ b). \<not> is_alphabetic ch" using x sp(2) alphabetic_not_whitespace by (auto simp: spaces_def)
  then have pos: "position is_alphabetic ((x @ b) @ u) = Some (length (x @ b))"
    by (rule position_append_alpha) (use ul in auto)
  have n: "trim (x @ b) = x" using trim_core [of "[]" b x] sp x by (auto simp: spaces_def)
  have un: "trim u = u" using trim_core [of "[]" "[]" u] ul alphabetic_not_whitespace by auto
  show ?thesis unfolding parse_bandwidth_def using t pos n un v u by (simp add: Let_def)
qed

lemma parse_decimal_digits: "list_all is_digit ip \<Longrightarrow> ip \<noteq> [] \<Longrightarrow> parse_decimal ip = Some (decimal_value ip, 1)"
  by (simp add: parse_decimal_def list_all_iff takeWhile_eq_all_conv [THEN iffD2] dropWhile_eq_Nil_conv [THEN iffD2])

lemma parse_decimal_point:
  assumes "list_all is_digit ip" "list_all is_digit fp" "ip \<noteq> []"
  shows "parse_decimal (ip @ CHR ''.'' # fp) = Some (decimal_value (ip @ fp), 10 ^ length fp)"
proof -
  have "takeWhile is_digit (ip @ CHR ''.'' # fp) = ip" "dropWhile is_digit (ip @ CHR ''.'' # fp) = CHR ''.'' # fp"
    using assms(1) by (simp_all add: list_all_iff takeWhile_append2 dropWhile_append2)
  then show ?thesis using assms by (simp add: parse_decimal_def)
qed

lemma parse_f64_unsigned:
  assumes "x = c # r" "is_digit c"
  shows "parse_f64 x = map_option (\<lambda>(n, d). f64_round False n d) (parse_decimal x)"
  using assms is_digit_facts [OF assms(2)] by (simp add: parse_f64_def)

text \<open>Digits with an optional fraction, as text and as a fraction.\<close>

definition decimal_text :: "string \<Rightarrow> string option \<Rightarrow> string" where
  "decimal_text ip fp = (case fp of None \<Rightarrow> ip | Some ds \<Rightarrow> ip @ CHR ''.'' # ds)"

definition decimal_ratio :: "string \<Rightarrow> string option \<Rightarrow> nat \<times> nat" where
  "decimal_ratio ip fp = (case fp of None \<Rightarrow> (decimal_value ip, 1) | Some ds \<Rightarrow> (decimal_value (ip @ ds), 10 ^ length ds))"

definition digits :: "string \<Rightarrow> bool" where
  "digits ip \<longleftrightarrow> ip \<noteq> [] \<and> list_all is_digit ip"

lemma digits_show_nat [simp]: "digits (show_nat n)"
  using show_nat_digits by (simp add: digits_def)

lemma decimal_text_facts:
  assumes "digits ip" "\<forall>ds. fp = Some ds \<longrightarrow> list_all is_digit ds"
  shows "decimal_text ip fp \<noteq> []" and "\<forall>ch \<in> set (decimal_text ip fp). \<not> is_alphabetic ch \<and> \<not> is_whitespace ch"
    and "parse_decimal (decimal_text ip fp) = Some (decimal_ratio ip fp)"
    and "parse_f64 (decimal_text ip fp) = Some (f64_round False (fst (decimal_ratio ip fp)) (snd (decimal_ratio ip fp)))"
proof -
  show 1: "decimal_text ip fp \<noteq> []" using assms by (auto simp: decimal_text_def digits_def split: option.split)
  show "\<forall>ch \<in> set (decimal_text ip fp). \<not> is_alphabetic ch \<and> \<not> is_whitespace ch"
    using assms by (auto simp: decimal_text_def digits_def list_all_iff is_digit_facts split: option.splits)
  show 2: "parse_decimal (decimal_text ip fp) = Some (decimal_ratio ip fp)"
    using assms parse_decimal_digits parse_decimal_point
    by (auto simp: decimal_text_def decimal_ratio_def digits_def split: option.split)
  obtain c r where "ip = c # r" "is_digit c" using assms(1) by (cases ip) (auto simp: digits_def)
  then have "parse_f64 (decimal_text ip fp) = map_option (\<lambda>(n, d). f64_round False n d) (parse_decimal (decimal_text ip fp))"
    by (intro parse_f64_unsigned [of _ c "tl (decimal_text ip fp)"]) (auto simp: decimal_text_def split: option.split)
  then show "parse_f64 (decimal_text ip fp) = Some (f64_round False (fst (decimal_ratio ip fp)) (snd (decimal_ratio ip fp)))"
    using 2 by (simp add: case_prod_beta)
qed

lemma decimal_ratio_pos: "0 < snd (decimal_ratio ip fp)"
  by (simp add: decimal_ratio_def split: option.split)

lemma unit_small: "unit_multiplier u = Some k \<Longrightarrow> 0 < k \<and> k < 2 ^ 53"
  using unit_letters [of u k] by auto

lemma digit_char_simps: "digit_char 0 = CHR ''0''" "digit_char 1 = CHR ''1''" "digit_char 5 = CHR ''5''"
  by (simp_all add: digit_char_def) (code_simp+)

lemma zero_is_digit: "is_digit CHR ''0''"
  by (simp add: is_digit_def)

lemma unit_texts: "map ascii_lower ''Kbps'' = ''kbps''" "map ascii_lower ''Mbps'' = ''mbps''"
  "map ascii_lower ''MBps'' = ''mbps''" "map ascii_lower ''Gbps'' = ''gbps''"
  by code_simp+

lemma unit_multiplier_simps [simp]: "unit_multiplier ''Kbps'' = Some 1000" "unit_multiplier ''Mbps'' = Some 1000000"
  "unit_multiplier ''MBps'' = Some 1000000" "unit_multiplier ''Gbps'' = Some 1000000000"
  by (simp_all only: unit_multiplier_def unit_texts Let_def) simp_all

text \<open>A whole number of units.\<close>

lemma parse_exact_product:
  assumes "0 < d" "ratio n d = real j" "0 < j" "0 < k" "j * k < 2 ^ 53"
  shows "\<not> f64_is_zero (f64_round False n d) \<and> f64_to_u64 (f64_mul (f64_round False n d) (f64_of_nat k)) = j * k"
proof -
  have small: "j < 2 ^ 53" "k < 2 ^ 53" by (rule factor_small [OF assms(5)], use assms(3,4) in simp)+
  obtain m e where v: "f64_round False n d = Fin False m e" "real m * 2 powi e = real j"
    using f64r.rnd_exact [of n d] representable_nat [OF small(1)] assms(1,2) by auto
  obtain m' e' where w: "f64_of_nat k = Fin False m' e'" "real m' * 2 powi e' = real k" by (rule f64_of_nat_exact [OF small(2)])
  obtain a b where p: "f64_mul (Fin False m e) (Fin False m' e') = f64_round False a b" "0 < b"
    "ratio a b = (real m * 2 powi e) * (real m' * 2 powi e')" by (rule f64_mul_round [of False m e False m' e']) simp
  have "ratio a b = real (j * k)" using p(3) v(2) w(2) by simp
  then obtain m2 e2 where z: "f64_round False a b = Fin False m2 e2" "real m2 * 2 powi e2 = real (j * k)"
    using f64r.rnd_exact [of a b] representable_nat [OF assms(5)] p(2) by auto
  have "j * k \<le> u64_max" using assms(5) by (simp add: u64_max_def)
  then have "f64_to_u64 (Fin False m2 e2) = j * k" using to_u64_exact z(2) by blast
  moreover have "0 < m" by (rule significand_pos [OF v(2) assms(3)])
  ultimately show ?thesis using v(1) w(1) p(1) z(1) by simp
qed

lemma zeros_ratio:
  assumes "decimal_ratio (show_nat n) fp = (a, b)" "\<forall>ds. fp = Some ds \<longrightarrow> set ds \<subseteq> {CHR ''0''}"
  shows "ratio a b = real n"
proof (cases fp)
  case None
  then show ?thesis using assms(1) by (auto simp: decimal_ratio_def ratio_def)
next
  case (Some ds)
  have "decimal_value (show_nat n @ ds) = n * 10 ^ length ds"
    using assms(2) [rule_format, OF Some]
  proof (induction ds rule: rev_induct)
    case (snoc c ds)
    then have "c = CHR ''0''" by auto
    then show ?case using snoc decimal_value_snoc [of "show_nat n @ ds" c] by (simp add: digit_value_def)
  qed simp
  then show ?thesis using assms(1) Some by (auto simp: decimal_ratio_def ratio_def)
qed

lemma parse_whole:
  assumes "spaces a" "spaces b" "spaces c" "unit_multiplier u = Some k" "0 < n" "n * k < 2 ^ 53"
    and "\<forall>ds. fp = Some ds \<longrightarrow> set ds \<subseteq> {CHR ''0''}"
  shows "parse_bandwidth (a @ decimal_text (show_nat n) fp @ b @ u @ c) = Inr (n * k)"
proof -
  have ds: "\<forall>ds. fp = Some ds \<longrightarrow> list_all is_digit ds"
    using assms(7) zero_is_digit by (fastforce simp: list_all_iff)
  note f = decimal_text_facts [OF digits_show_nat ds]
  obtain p q where r: "decimal_ratio (show_nat n) fp = (p, q)" by (metis prod.exhaust)
  have "ratio p q = real n" by (rule zeros_ratio [OF r assms(7)])
  moreover have "0 < q" using decimal_ratio_pos [of "show_nat n" fp] r by simp
  ultimately show ?thesis using parse_bandwidth_eval [OF assms(1-4) f(1,2,4)] r
      parse_exact_product [of q p n k] assms(5,6) unit_small [OF assms(4)] by simp
qed

text \<open>Printing a whole number of units.\<close>

definition unit_of :: "nat \<Rightarrow> nat" where
  "unit_of bps = (if 1000000000 \<le> bps then 1000000000 else if 1000000 \<le> bps then 1000000 else 1000)"

lemma format_whole:
  assumes "real m * 2 powi e = real j"
  shows "format_1 (Fin False m e) = decimal_text (show_nat j) (Some ''0'')"
proof -
  obtain a b where s: "scale e m 1 = (a, b)" by (metis prod.exhaust)
  then have "ratio a b = real j" "0 < b" using scale_value [OF _ s] assms by (auto simp: ratio_def)
  then have "real a = real (j * b)" by (simp add: ratio_def field_simps)
  then have "a = j * b" by (simp only: of_nat_eq_iff)
  then have "half_even (10 * a) b = 10 * j" using \<open>0 < b\<close> by (simp add: half_even_def Let_def)
  then show ?thesis using s by (simp add: decimal_text_def digit_char_simps)
qed

lemma div_whole:
  assumes "j * k < 2 ^ 53" "0 < k" "0 < j"
  obtains m e where "f64_div (f64_of_nat (j * k)) (f64_of_nat k) = Fin False m e" and "real m * 2 powi e = real j"
proof -
  have small: "j < 2 ^ 53" "k < 2 ^ 53" by (rule factor_small [OF assms(1)], use assms(2,3) in simp)+
  obtain m e where v: "f64_of_nat (j * k) = Fin False m e" "real m * 2 powi e = real (j * k)" by (rule f64_of_nat_exact [OF assms(1)])
  obtain m' e' where w: "f64_of_nat k = Fin False m' e'" "real m' * 2 powi e' = real k" by (rule f64_of_nat_exact [OF small(2)])
  have "0 < m'" by (rule significand_pos [OF w(2) assms(2)])
  then obtain a b where q: "f64_div (Fin False m e) (Fin False m' e') = f64_round False a b" "0 < b"
    "ratio a b = (real m * 2 powi e) / (real m' * 2 powi e')" by (rule f64_div_round [of m' False m e False e']) simp
  have "ratio a b = real j" using q(3) v(2) w(2) assms(2) by simp
  then show thesis using f64r.rnd_exact [of a b] representable_nat [OF small(1)] q(1,2) v(1) w(1) that by auto
qed

lemma display_whole:
  assumes "0 < j" "j * unit_of bps < 2 ^ 53" "bps = j * unit_of bps"
  shows "\<exists>u. unit_multiplier u = Some (unit_of bps) \<and>
    bw_cap_display (Some bps) = decimal_text (show_nat j) (Some ''0'') @ '' '' @ u"
proof -
  have k: "0 < unit_of bps" by (simp add: unit_of_def)
  obtain m e where "f64_div (f64_of_nat bps) (f64_of_nat (unit_of bps)) = Fin False m e" "real m * 2 powi e = real j"
    using div_whole [OF assms(2) k assms(1)] assms(3) by metis
  then have d: "format_1 (f64_div (f64_of_nat bps) (f64_of_nat (unit_of bps))) = decimal_text (show_nat j) (Some ''0'')"
    using format_whole by simp
  consider "1000000000 \<le> bps" | "1000000 \<le> bps" "bps < 1000000000" | "bps < 1000000" by linarith
  then show ?thesis
  proof cases
    case 1
    then show ?thesis using d by (intro exI [of _ "''Gbps''"]) (simp add: bw_cap_display_def unit_of_def)
  next
    case 2
    then show ?thesis using d by (intro exI [of _ "''Mbps''"]) (simp add: bw_cap_display_def unit_of_def)
  next
    case 3
    then show ?thesis using d by (intro exI [of _ "''Kbps''"]) (simp add: bw_cap_display_def unit_of_def)
  qed
qed

lemma round_nonzero:
  assumes "0 < d" "2 powi (- 1000) \<le> ratio n d" "f64_round s n d = Fin s m e"
  shows "0 < m"
proof -
  have "representable (2 powi (- 1000))" using representable_shift [of 1 "- 1000"] by simp
  from f64_round_lower [OF this _ assms(1,2), of s] have "2 powi (- 1000) \<le> real m * 2 powi e"
    using assms(3) by auto
  moreover have "(0 :: real) < 2 powi (- 1000)" by simp
  ultimately have "0 < real m * 2 powi e" by linarith
  then show ?thesis by (cases m) auto
qed

lemma f64_to_u64_between:
  assumes "0 < d" "real lo \<le> ratio n d" "ratio n d \<le> real hi / 2" "lo < 2 ^ 53" "hi < 2 ^ 53"
  shows "lo \<le> f64_to_u64 (f64_round False n d) \<and> real (f64_to_u64 (f64_round False n d)) \<le> real hi / 2"
proof -
  have rep: "representable (real hi / 2)" using representable_shift [OF assms(5), of "- 1"] by (simp add: power_int_minus field_simps)
  obtain m e where r: "f64_round False n d = Fin False m e" "real m * 2 powi e \<le> real hi / 2"
    using f64r.rnd_upper [OF rep _ assms(1,3)] by auto
  have lo: "real lo \<le> real m * 2 powi e"
    using f64r.rnd_lower [OF representable_nat [OF assms(4)] _ assms(1,2)] r(1) by auto
  have "int (f64_to_u64 (Fin False m e)) = min \<lfloor>real m * 2 powi e\<rfloor> (int u64_max)" by (rule f64_to_u64_floor)
  moreover have "int lo \<le> \<lfloor>real m * 2 powi e\<rfloor>" using lo by (simp add: le_floor_iff)
  moreover have "int lo \<le> int u64_max" using assms(4) by (simp add: u64_max_def)
  moreover have "real_of_int \<lfloor>real m * 2 powi e\<rfloor> \<le> real hi / 2" using r(2) by linarith
  ultimately have "int lo \<le> int (f64_to_u64 (Fin False m e))" "real_of_int (int (f64_to_u64 (Fin False m e))) \<le> real hi / 2" by linarith+
  then show ?thesis using r(1) by simp
qed

lemma product_close:
  assumes "0 < d" "1 \<le> ratio n d * real k" "ratio n d * real k < 2 ^ 51" "0 < k" "k \<le> 1000000000"
  obtains m e a b where "f64_round False n d = Fin False m e" and "0 < m"
    and "f64_mul (Fin False m e) (f64_of_nat k) = f64_round False a b" and "0 < b"
    and "\<bar>ratio a b - ratio n d * real k\<bar> < 1 / 2"
proof -
  define T where "T = ratio n d * real k"
  have x: "0 \<le> ratio n d" by (simp add: ratio_def)
  have "ratio n d \<le> T" unfolding T_def using x assms(4) by (simp add: mult_le_cancel_left1)
  then have le: "ratio n d \<le> real (2 ^ 51)" using assms(3) by (simp add: T_def)
  have "representable (real (2 ^ 51))" by (rule representable_nat) simp
  from f64r.rnd_upper [OF this _ assms(1) le] obtain m e where r: "f64_round False n d = Fin False m e" by auto
  have "1 \<le> ratio n d * 1000000000" using assms(2,5) x mult_left_mono [of "real k" 1000000000 "ratio n d"] by simp
  then have "2 powi (- 30) \<le> ratio n d" by (simp add: power_int_minus)
  then have "2 powi (- 1000) \<le> ratio n d" using powi_le [of "- 1000" "- 30"] by simp
  then have m: "0 < m" by (rule round_nonzero [OF assms(1) _ r])
  have "k < 2 ^ 53" using assms(5) by simp
  then obtain m' e' where w: "f64_of_nat k = Fin False m' e'" "real m' * 2 powi e' = real k" by (rule f64_of_nat_exact)
  obtain a b where p: "f64_mul (Fin False m e) (Fin False m' e') = f64_round False a b" "0 < b"
    "ratio a b = (real m * 2 powi e) * (real m' * 2 powi e')" by (rule f64_mul_round [of False m e False m' e']) simp
  have "\<bar>real m * 2 powi e - ratio n d\<bar> * real k \<le> (ratio n d * 2 powi (- 53) + 2 powi (- 1075)) * real k"
    using f64_round_error [OF assms(1) r] by (rule mult_right_mono) simp
  also have "\<dots> = T * 2 powi (- 53) + 2 powi (- 1075) * real k" by (simp add: T_def algebra_simps)
  also have "\<dots> < 1 / 2"
  proof -
    have "T * 2 powi (- 53) < 2 ^ 51 * 2 powi (- 53)" using assms(3) unfolding T_def by (intro mult_strict_right_mono) simp_all
    moreover have "(2 :: real) ^ 51 * 2 powi (- 53) = 1 / 4" by (simp add: power_int_minus)
    moreover have "(2 :: real) powi (- 1075) * real k \<le> 2 powi (- 40) * 1000000000"
      using assms(5) powi_le [of "- 1075" "- 40"] by (intro mult_mono) auto
    moreover have "(2 :: real) powi (- 40) * 1000000000 \<le> 1 / 4" by (simp add: power_int_minus)
    ultimately show ?thesis by linarith
  qed
  finally have "\<bar>(real m * 2 powi e - ratio n d) * real k\<bar> < 1 / 2" by (simp add: abs_mult)
  then have "\<bar>ratio a b - ratio n d * real k\<bar> < 1 / 2" using p(3) w(2) by (simp add: algebra_simps)
  then show thesis using that [OF r m _ p(2)] p(1) w(1) by simp
qed

lemmas bandwidth_eval = parse_decimal_def decimal_value_def digit_value_def is_digit_def f64_round_def
  floor_log2_def scale_def half_even_def f64_of_nat_def bits.simps u64_max_def

lemma parse_1001: "parse_bandwidth ''1.001Kbps'' = Inr 1000"
proof -
  have v: "parse_f64 ''1.001'' = Some (Fin False 4508103226997866 (- 52))"
    by (simp add: parse_f64_def bandwidth_eval)
  have "f64_mul (Fin False 4508103226997866 (- 52)) (f64_of_nat 1000) = Fin False 8804889115230207 (- 43)"
    by (simp add: bandwidth_eval)
  then have "f64_to_u64 (f64_mul (Fin False 4508103226997866 (- 52)) (f64_of_nat 1000)) = 1000" by (simp add: bandwidth_eval)
  then show ?thesis
    using parse_bandwidth_eval [of "[]" "[]" "[]" "''Kbps''" 1000 "''1.001''" "Fin False 4508103226997866 (- 52)"] v
    by (simp add: spaces_def is_alphabetic_def is_whitespace_def)
qed

section \<open>Properties\<close>

text \<open>C19 (roundtrip): a cap is read as it is written. A whole number of units, with or without a fraction of
  zeros, in upper or lower case and with white space anywhere around number and unit, gives exactly
  that many bits per second (below 2^53); and what \<open>bw_cap_display\<close> prints for a whole number of its
  unit is read back as the same cap.\<close>

theorem bandwidth_roundtrip:
  assumes "spaces a" "spaces b" "spaces c" "unit_multiplier u = Some k" "0 < n" "n * k < 2 ^ 53"
    and "\<forall>ds. fp = Some ds \<longrightarrow> set ds \<subseteq> {CHR ''0''}"
    and "0 < bps" "unit_of bps dvd bps" "bps < 2 ^ 53"
  shows "parse_bandwidth (a @ decimal_text (show_nat n) fp @ b @ u @ c) = Inr (n * k) \<and>
    parse_bandwidth (bw_cap_display (Some bps)) = Inr bps"
proof
  show "parse_bandwidth (a @ decimal_text (show_nat n) fp @ b @ u @ c) = Inr (n * k)" by (rule parse_whole [OF assms(1-7)])
  from assms(9) obtain j where j: "bps = j * unit_of bps" by (metis dvd_def mult.commute)
  then have "0 < j" "j * unit_of bps < 2 ^ 53" using assms(8,10) by (metis gr0I mult_0, simp)
  then obtain v where v: "unit_multiplier v = Some (unit_of bps)"
    "bw_cap_display (Some bps) = decimal_text (show_nat j) (Some ''0'') @ '' '' @ v" using display_whole j by blast
  have "spaces '' ''" by (simp add: spaces_def is_whitespace_def)
  from parse_whole [OF _ this _ v(1), of "[]" "[]" j "Some ''0''"]
  show "parse_bandwidth (bw_cap_display (Some bps)) = Inr bps"
    using v(2) j \<open>0 < j\<close> \<open>j * unit_of bps < 2 ^ 53\<close> by (simp add: spaces_def)
qed

theorem bandwidth_roundtrip_witness:
  "parse_bandwidth '' 10.00  MBps'' = Inr 10000000 \<and> parse_bandwidth (bw_cap_display (Some 500000)) = Inr 500000"
  using bandwidth_roundtrip [of "'' ''" "''  ''" "[]" "''MBps''" 1000000 10 "Some ''00''" 500000]
  by (simp add: spaces_def is_whitespace_def decimal_text_def show_nat.simps [of 10] show_nat.simps [of "Suc 0"] digit_char_simps [unfolded One_nat_def] unit_of_def)

text \<open>C40 (bounds): a fractional cap is read to within one bit per second. For digits and an optional fraction that
  stand for T bits per second, 1 to 2^51, the parsed cap is more than T - 2 and at most T + 1; and when T is a
  whole number it is T or T - 1. The two roundings and the truncation can lose that one: 1.001Kbps gives 1000.\<close>

theorem parse_bandwidth_close:
  assumes "spaces a" "spaces b" "spaces c" "unit_multiplier u = Some k"
    and "digits ip" "\<forall>ds. fp = Some ds \<longrightarrow> list_all is_digit ds" and "decimal_ratio ip fp = (n, d)"
    and "1 \<le> real n / real d * real k" "real n / real d * real k < 2 ^ 51"
  shows "\<exists>bps. parse_bandwidth (a @ decimal_text ip fp @ b @ u @ c) = Inr bps \<and>
    real n / real d * real k - 2 < real bps \<and> real bps \<le> real n / real d * real k + 1 \<and>
    (real n / real d * real k = real t \<longrightarrow> bps = t \<or> Suc bps = t)"
proof -
  define T where "T = ratio n d * real k"
  have T: "1 \<le> T" "T < 2 ^ 51" "real n / real d * real k = T" using assms(8,9) by (simp_all add: T_def ratio_def)
  have d: "0 < d" using decimal_ratio_pos [of ip fp] assms(7) by simp
  have k: "0 < k" "k \<le> 1000000000" using unit_letters [OF assms(4)] by auto
  obtain m e p q where r: "f64_round False n d = Fin False m e" "0 < m"
    "f64_mul (Fin False m e) (f64_of_nat k) = f64_round False p q" "0 < q" "\<bar>ratio p q - T\<bar> < 1 / 2"
    using product_close [OF d T(1,2) [unfolded T_def] k] unfolding T_def by blast
  define bps where "bps = f64_to_u64 (f64_round False p q)"
  have parse: "parse_bandwidth (a @ decimal_text ip fp @ b @ u @ c) = Inr bps"
    using parse_bandwidth_eval [OF assms(1-4) decimal_text_facts(1,2,4) [OF assms(5,6)]] assms(7) r by (simp add: bps_def)
  define f where "f = nat \<lfloor>T\<rfloor>"
  have f: "real f \<le> T" "T < real f + 1" "1 \<le> f" using T(1) by (simp_all add: f_def of_nat_nat) linarith+
  have "real f < 2 ^ 51" using f(1) T(2) by linarith
  then have small: "f < 2 ^ 51" by (metis of_nat_less_iff of_nat_numeral of_nat_power)
  have pq: "T - 1 / 2 < ratio p q" "ratio p q < T + 1 / 2" using r(5) by linarith+
  have lo: "real (f - 1) \<le> ratio p q" "f - 1 < 2 ^ 53" using pq f small by (auto simp: of_nat_diff)
  have hi: "real (2 * f + 3) / 2 = real f + 3 / 2" "real (2 * f + 1) / 2 = real f + 1 / 2" by (simp_all add: field_simps)
  have b: "f - 1 \<le> bps" "real bps \<le> real f + 3 / 2"
    using f64_to_u64_between [OF r(4) lo(1) _ lo(2), of "2 * f + 3"] pq f small unfolding hi bps_def by simp_all
  then have "bps \<le> f + 1" by linarith
  then have close: "T - 2 < real bps" "real bps \<le> T + 1" using b(1) f by linarith+
  have "bps = t \<or> Suc bps = t" if t: "T = real t"
  proof -
    have "f = t" using t by (simp add: f_def)
    moreover have "real bps \<le> real f + 1 / 2"
      using f64_to_u64_between [OF r(4) lo(1) _ lo(2), of "2 * f + 1"] pq small t \<open>f = t\<close> unfolding hi bps_def by simp
    then have "bps \<le> f" by linarith
    ultimately show ?thesis using b(1) f(3) by linarith
  qed
  then show ?thesis using parse close T(3) by auto
qed

theorem parse_bandwidth_close_witness:
  "parse_bandwidth ''1.001Kbps'' = Inr 1000 \<and>
   (\<exists>bps. parse_bandwidth ''1.001Kbps'' = Inr bps \<and> (bps = 1001 \<or> Suc bps = 1001))"
  using parse_1001 parse_bandwidth_close [of "[]" "[]" "[]" "''Kbps''" 1000 "''1''" "Some ''001''" 1001 1000 1001]
  by (simp add: spaces_def digits_def decimal_text_def decimal_ratio_def decimal_value_def digit_value_def is_digit_def)

text \<open>C38 (error): a negative cap is accepted. Its value is cast to 0 bits per second, the option parser and
  \<open>validate\<close> are content with it, and the agent panics when it builds the rate limiter.\<close>

theorem negative_cap_panics:
  assumes "spaces a" "spaces b" "spaces c" "unit_multiplier u = Some k" "0 < n" "n < 2 ^ 53" "config_validate cfg = Inr ()"
  shows "parse_bandwidth (a @ (CHR ''-'' # show_nat n) @ b @ u @ c) = Inr 0 \<and>
    config_validate (cfg\<lparr>cf_bw_cap_bps := Some 0\<rparr>) = Inr () \<and> control_new (cfg\<lparr>cf_bw_cap_bps := Some 0\<rparr>) session = None"
proof (intro conjI)
  have v: "parse_f64 (CHR ''-'' # show_nat n) = Some (f64_round True n 1)"
    using parse_decimal_digits show_nat_digits by (simp add: parse_f64_def)
  have "\<forall>ch \<in> set (CHR ''-'' # show_nat n). \<not> is_alphabetic ch \<and> \<not> is_whitespace ch"
    using show_nat_digits is_digit_facts by (auto simp: list_all_iff)
  note e = parse_bandwidth_eval [OF assms(1-4) _ this v]
  obtain m f where r: "f64_round True n 1 = Fin True m f" using f64_round_upper [OF representable_nat [OF assms(6)], of 1 n True] by (auto simp: ratio_def)
  have "2 powi (- 1000) \<le> (1 :: real)" using powi_le [of "- 1000" 0] by simp
  also have "\<dots> \<le> ratio n 1" using assms(5) by (simp add: ratio_def)
  finally have m: "0 < m" using round_nonzero [OF _ _ r] by simp
  obtain m' e' where w: "f64_of_nat k = Fin False m' e'" using f64_of_nat_exact [of k] unit_small [OF assms(4)] by blast
  obtain p q where "f64_mul (Fin True m f) (Fin False m' e') = f64_round True p q" by (rule f64_mul_round [of True m f False m' e']) simp
  moreover have "f64_to_u64 (f64_round True p q) = 0" by (simp add: f64_round_def Let_def split: prod.split)
  ultimately show "parse_bandwidth (a @ (CHR ''-'' # show_nat n) @ b @ u @ c) = Inr 0" using e r w m by simp
  show ok: "config_validate (cfg\<lparr>cf_bw_cap_bps := Some 0\<rparr>) = Inr ()" using assms(7) by (simp add: config_validate_def split: if_splits)
  show "control_new (cfg\<lparr>cf_bw_cap_bps := Some 0\<rparr>) session = None"
    unfolding control_new_def ok by (simp add: sm_new_def arl_new_def from_rate_bps_def)
qed

theorem negative_cap_panics_witness:
  "parse_bandwidth ''-5 Mbps'' = Inr 0 \<and> control_new (demo_config\<lparr>cf_bw_cap_bps := Some 0\<rparr>) 0 = None"
  using negative_cap_panics [of "[]" "'' ''" "[]" "''Mbps''" 1000000 5 demo_config 0]
  by (simp add: spaces_def is_whitespace_def show_nat.simps [of 5] digit_char_simps demo_config_def config_validate_def
      DEFAULT_CHUNK_SIZE_BYTES_def DEFAULT_SPOOL_CAPACITY_BYTES_def)

end
