(* ===== verification/E2e_Test.thy ===== *)
theory E2e_Test
  imports Bandwidth
begin

text \<open>
  The end-to-end test program (quelay-agent/src/bin/e2e-test): its callback server (callback.rs), the
  transfers and their checks (main.rs) and the subcommands (multi_file.rs, small_file_edge_cases.rs, drr.rs,
  max_concurrent.rs).

  The program talks to two running agents. Every call it makes and every answer it waits for is an
  operation of the record \<open>world\<close>, on a state \<open>'w\<close> that stands for the agents, the sockets and the clock;
  the program itself is a state and error monad over it (\<open>io\<close>), in which \<open>?\<close> is \<open>io_bind\<close>.
  Identifiers are drawn by the uuid crate and are arguments, the digest of SHA-256 is an argument. Console output and
  the printed report are left out.
\<close>

section \<open>The callback server\<close>

datatype test_callback_event =
    Started string nat
  | Done string nat
  | TestFailed string string
  | LinkStateEvent wire_link_state
  | QueueStatusEvent wire_queue_status

record test_callback_handler =
  th_events :: "test_callback_event list"
  th_progress_count :: nat

definition test_handler_new :: test_callback_handler where
  "test_handler_new = \<lparr>th_events = [], th_progress_count = 0\<rparr>"

definition send_event :: "test_callback_event \<Rightarrow> test_callback_handler \<Rightarrow> test_callback_handler" where
  "send_event ev h = h\<lparr>th_events := th_events h @ [ev]\<rparr>"

fun test_handle :: "(uuid \<Rightarrow> string) \<Rightarrow> wire_call \<Rightarrow> test_callback_handler \<Rightarrow> test_callback_handler" where
  "test_handle to_string CPing h = h"
| "test_handle to_string (CStreamStarted u info port) h = send_event (Started (to_string u) (as_u16 (as_u64 port))) h"
| "test_handle to_string (CStreamProgress u progress) h = h\<lparr>th_progress_count := add_u64 (th_progress_count h) 1\<rparr>"
| "test_handle to_string (CStreamDone u bytes wire) h = send_event (Done (to_string u) (as_u64 bytes)) h"
| "test_handle to_string (CStreamFailed u code reason) h = send_event (TestFailed (to_string u) reason) h"
| "test_handle to_string (CLinkStatusUpdate state) h = send_event (LinkStateEvent state) h"
| "test_handle to_string (CQueueStatusUpdate status) h = send_event (QueueStatusEvent status) h"

fun event_uuid :: "test_callback_event \<Rightarrow> string option" where
  "event_uuid (Started u port) = Some u"
| "event_uuid (Done u bytes) = Some u"
| "event_uuid (TestFailed u reason) = Some u"
| "event_uuid (LinkStateEvent s) = None"
| "event_uuid (QueueStatusEvent s) = None"

text \<open>The three ways to receive, on the events that arrive before the deadline: the next one, the next one of a
  stream (others are discarded), and the last queue status (all are).\<close>

definition recv_event :: "test_callback_event list \<Rightarrow> (string + test_callback_event) \<times> test_callback_event list" where
  "recv_event evs = (case evs of [] \<Rightarrow> (Inl ''test callback recv timeout'', []) | ev # rest \<Rightarrow> (Inr ev, rest))"

fun recv_event_for :: "string \<Rightarrow> test_callback_event list \<Rightarrow> (string + test_callback_event) \<times> test_callback_event list" where
  "recv_event_for uuid [] = (Inl ''test callback recv timeout waiting for uuid'', [])"
| "recv_event_for uuid (ev # rest) = (if event_uuid ev = Some uuid then (Inr ev, rest) else recv_event_for uuid rest)"

fun last_queue_status :: "wire_queue_status option \<Rightarrow> test_callback_event list \<Rightarrow> wire_queue_status option" where
  "last_queue_status seen [] = seen"
| "last_queue_status seen (ev # rest) = last_queue_status (case ev of QueueStatusEvent s \<Rightarrow> Some s | _ \<Rightarrow> seen) rest"

section \<open>The world\<close>

type_synonym ('w, 'a) io = "'w \<Rightarrow> (string + 'a) \<times> 'w"

definition io_return :: "'a \<Rightarrow> ('w, 'a) io" where
  "io_return x w = (Inr x, w)"

definition io_fail :: "string \<Rightarrow> ('w, 'a) io" where
  "io_fail e w = (Inl e, w)"

definition io_bind :: "('w, 'a) io \<Rightarrow> ('a \<Rightarrow> ('w, 'b) io) \<Rightarrow> ('w, 'b) io" where
  "io_bind m f w = (case m w of (Inl e, w') \<Rightarrow> (Inl e, w') | (Inr x, w') \<Rightarrow> f x w')"

definition ensure :: "bool \<Rightarrow> string \<Rightarrow> ('w, unit) io" where
  "ensure b e = (if b then io_return () else io_fail e)"

text \<open>Agents are numbered by their address, callback servers by a number. An operation that calls an agent includes
  the connection to it. \<open>wd_events\<close> are the events a server's channel brings before a receiver with that
  timeout (in milliseconds) gives up. The writer of a transfer runs in its own thread: \<open>wd_spawn_writer\<close> starts it,
  \<open>wd_join_writer\<close> gives its result. \<open>wd_read\<close> reads a port to the end.\<close>

type_synonym addr = nat

datatype write_action = WriteAll "u8 list" | DisableLink | EnableLinkAfter f64

record 'w world =
  wd_resolve :: "string \<Rightarrow> string + addr list"
  wd_reachable :: "addr \<Rightarrow> 'w \<Rightarrow> bool"
  wd_bind_callback :: "('w, nat) io"
  wd_set_callback :: "addr \<Rightarrow> nat \<Rightarrow> ('w, string) io"
  wd_stream_start :: "addr \<Rightarrow> string \<Rightarrow> wire_stream_info \<Rightarrow> 8 word \<Rightarrow> ('w, wire_start_return) io"
  wd_set_max_concurrent :: "addr \<Rightarrow> int \<Rightarrow> ('w, unit) io"
  wd_set_chunk_size_bytes :: "addr \<Rightarrow> int \<Rightarrow> ('w, unit) io"
  wd_get_bandwidth_cap_bps :: "addr \<Rightarrow> ('w, int) io"
  wd_get_conn_stats :: "addr \<Rightarrow> ('w, wire_conn_stats) io"
  wd_events :: "nat \<Rightarrow> nat \<Rightarrow> 'w \<Rightarrow> test_callback_event list"
  wd_set_events :: "nat \<Rightarrow> test_callback_event list \<Rightarrow> 'w \<Rightarrow> 'w"
  wd_progress_count :: "nat \<Rightarrow> 'w \<Rightarrow> nat"
  wd_spawn_writer :: "addr \<Rightarrow> nat \<Rightarrow> write_action list option \<Rightarrow> 'w \<Rightarrow> 'w"
  wd_join_writer :: "('w, unit) io"
  wd_read :: "addr \<Rightarrow> nat \<Rightarrow> nat \<Rightarrow> ('w, u8 list) io"
  wd_elapsed :: "'w \<Rightarrow> duration"

definition io_receive :: "'w world \<Rightarrow> nat \<Rightarrow> nat \<Rightarrow>
    (test_callback_event list \<Rightarrow> (string + 'a) \<times> test_callback_event list) \<Rightarrow> ('w, 'a) io" where
  "io_receive wd server timeout receive w =
     (case receive (wd_events wd server timeout w) of (r, rest) \<Rightarrow> (r, wd_set_events wd server rest w))"

section \<open>Helpers\<close>

definition resolve_addr :: "'w world \<Rightarrow> string \<Rightarrow> string + addr" where
  "resolve_addr wd host_port =
     (case wd_resolve wd host_port of
        Inl e \<Rightarrow> Inl ''DNS resolution failed''
      | Inr [] \<Rightarrow> Inl ''no addresses found''
      | Inr (a # _) \<Rightarrow> Inr a)"

definition ensure_agent_running :: "'w world \<Rightarrow> addr \<Rightarrow> ('w, unit) io" where
  "ensure_agent_running wd a w = ensure (wd_reachable wd a w) ''Agent not reachable'' w"

definition TIMEOUT_HEADROOM :: f64 where "TIMEOUT_HEADROOM = f64_of_nat 4"
definition TIMEOUT_MIN_SECS :: nat where "TIMEOUT_MIN_SECS = 30"

definition transfer_timeout :: "nat \<Rightarrow> nat option \<Rightarrow> nat" where
  "transfer_timeout bytes cap_bps =
     (case cap_bps of
        Some cap \<Rightarrow>
          let bytes_per_sec = f64_div (f64_of_nat cap) (f64_of_nat 8);
              expected = f64_div (f64_of_nat bytes) bytes_per_sec
          in max (f64_to_u64 (f64_mul expected TIMEOUT_HEADROOM)) TIMEOUT_MIN_SECS
      | None \<Rightarrow> TIMEOUT_MIN_SECS)"

definition query_cap :: "'w world \<Rightarrow> addr \<Rightarrow> ('w, nat option) io" where
  "query_cap wd sender_c2i =
     io_bind (wd_get_bandwidth_cap_bps wd sender_c2i) (\<lambda>cap_bps.
       io_return (if cap_bps \<le> 0 then None else Some (as_u64 cap_bps)))"

definition query_conn_stats :: "'w world \<Rightarrow> addr \<Rightarrow> 'w \<Rightarrow> wire_conn_stats option \<times> 'w" where
  "query_conn_stats wd sender_c2i w =
     (case wd_get_conn_stats wd sender_c2i w of (Inl e, w') \<Rightarrow> (None, w') | (Inr s, w') \<Rightarrow> (Some s, w'))"

definition sub_i64 :: "int \<Rightarrow> int \<Rightarrow> int" where
  "sub_i64 a b = as_i64 (as_u64 (a - b))"

definition diff_conn_stats :: "wire_conn_stats \<Rightarrow> wire_conn_stats \<Rightarrow> wire_conn_stats" where
  "diff_conn_stats before after =
     (let delta = (\<lambda>f. Some (sub_i64 (unwrap_or (f after) 0) (unwrap_or (f before) 0)))
      in \<lparr>w_sent_packets = delta w_sent_packets, w_lost_packets = delta w_lost_packets,
          w_congestion_events = delta w_congestion_events, w_rtt_ms = w_rtt_ms after, w_cwnd = w_cwnd after,
          w_lost_bytes = delta w_lost_bytes\<rparr>)"

definition bytes_display :: "nat \<Rightarrow> string" where
  "bytes_display bytes =
     (let b = f64_of_nat bytes; KIB = f64_of_nat 1024; MIB = f64_mul (f64_of_nat 1024) (f64_of_nat 1024);
          GIB = f64_mul (f64_mul (f64_of_nat 1024) (f64_of_nat 1024)) (f64_of_nat 1024)
      in if f64_le GIB b then format_1 (f64_div b GIB) @ '' GiB''
         else if f64_le MIB b then format_1 (f64_div b MIB) @ '' MiB''
         else if f64_le KIB b then format_1 (f64_div b KIB) @ '' KiB''
         else show_nat bytes @ '' B'')"

text \<open>\<open>sha256_hex\<close> prints the bytes of the digest; the digest itself is the sha2 crate's.\<close>

definition hex_digit :: "nat \<Rightarrow> char" where
  "hex_digit d = char_of (if d < 10 then 48 + d else 87 + d)"

definition sha256_hex :: "(u8 list \<Rightarrow> u8 list) \<Rightarrow> u8 list \<Rightarrow> string" where
  "sha256_hex digest data = concat (map (\<lambda>b. [hex_digit (unat b div 16), hex_digit (unat b mod 16)]) (digest data))"

section \<open>Transfers\<close>

datatype link_inject = NoInject | Drop nat f64 addr

text \<open>What the writer does; \<open>None\<close> where slicing the payload panics.\<close>

fun writer_actions :: "link_inject \<Rightarrow> u8 list \<Rightarrow> write_action list option" where
  "writer_actions NoInject payload = Some [WriteAll payload]"
| "writer_actions (Drop drop_after link_down_secs sender_c2i) payload =
     (if length payload < drop_after then None
      else Some [WriteAll (take drop_after payload), DisableLink, EnableLinkAfter link_down_secs, WriteAll (drop drop_after payload)])"

record transfer_stats =
  ts_sha256_sent :: string
  ts_sha256_rcvd :: string
  ts_rate_bytes_per_sec :: f64
  ts_elapsed :: duration

record test_context =
  tc_sender_c2i :: addr
  tc_receiver_c2i :: addr
  tc_skip_bw_check :: bool

definition expect_started :: "string \<Rightarrow> test_callback_event \<Rightarrow> ('w, nat) io" where
  "expect_started e ev = (case ev of Started u port \<Rightarrow> io_return port | _ \<Rightarrow> io_fail e)"

definition expect_done :: "string \<Rightarrow> string \<Rightarrow> test_callback_event \<Rightarrow> ('w, nat) io" where
  "expect_done failed other ev = (case ev of Done u bytes \<Rightarrow> io_return bytes | TestFailed u reason \<Rightarrow> io_fail failed | _ \<Rightarrow> io_fail other)"

text \<open>The loop that waits for the sender's \<open>Done\<close>.\<close>

fun await_sender_done :: "test_callback_event list \<Rightarrow> (string + nat) \<times> test_callback_event list" where
  "await_sender_done [] = (Inl ''test callback recv timeout'', [])"
| "await_sender_done (Done u bytes # rest) = (Inr bytes, rest)"
| "await_sender_done (TestFailed u reason # rest) = (Inl ''sender stream_failed'', rest)"
| "await_sender_done (QueueStatusEvent s # rest) = await_sender_done rest"
| "await_sender_done (Started u port # rest) = await_sender_done rest"
| "await_sender_done (LinkStateEvent s # rest) = await_sender_done rest"

definition register_callbacks :: "'w world \<Rightarrow> test_context \<Rightarrow> nat \<Rightarrow> nat \<Rightarrow> ('w, unit) io" where
  "register_callbacks wd ctx sender_cb receiver_cb =
     io_bind (wd_set_callback wd (tc_sender_c2i ctx) sender_cb) (\<lambda>e.
     io_bind (ensure (e = []) ''set_callback (sender)'') (\<lambda>_.
     io_bind (wd_set_callback wd (tc_receiver_c2i ctx) receiver_cb) (\<lambda>e.
     ensure (e = []) ''set_callback (receiver)'')))"

definition run_transfer :: "'w world \<Rightarrow> (u8 list \<Rightarrow> u8 list) \<Rightarrow> test_context \<Rightarrow> u8 list \<Rightarrow> string \<Rightarrow> link_inject \<Rightarrow> nat \<Rightarrow>
    ('w, transfer_stats) io" where
  "run_transfer wd digest ctx payload uuid inject timeout =
     (let sha256_sent = sha256_hex digest payload; bytes = length payload in
      io_bind (wd_bind_callback wd) (\<lambda>sender_cb.
      io_bind (wd_bind_callback wd) (\<lambda>receiver_cb.
      io_bind (register_callbacks wd ctx sender_cb receiver_cb) (\<lambda>_.
      io_bind (\<lambda>w. let (s, w') = query_conn_stats wd (tc_sender_c2i ctx) w in (Inr s, w')) (\<lambda>conn_stats_before.
      io_bind (wd_stream_start wd (tc_sender_c2i ctx) uuid
        \<lparr>w_size_bytes = Some (as_i64 bytes),
         w_attrs = Some [''filename'' \<mapsto> uuid @ ''.bin'', ''sha256'' \<mapsto> sha256_sent]\<rparr> 0) (\<lambda>result.
      io_bind (ensure (wr_status result = Some RUNNING) ''stream_start failed'') (\<lambda>_.
      io_bind (io_receive wd sender_cb (1000 * timeout) recv_event) (\<lambda>ev.
      io_bind (expect_started ''sender: expected Started'' ev) (\<lambda>sender_port.
      io_bind (\<lambda>w. (Inr (), wd_spawn_writer wd (tc_sender_c2i ctx) sender_port (writer_actions inject payload) w)) (\<lambda>_.
      io_bind (io_receive wd receiver_cb (1000 * timeout) recv_event) (\<lambda>ev.
      io_bind (expect_started ''receiver: expected Started'' ev) (\<lambda>receiver_port.
      io_bind (wd_read wd (tc_receiver_c2i ctx) receiver_port (1000 * timeout)) (\<lambda>received.
      io_bind (io_receive wd receiver_cb (1000 * timeout) recv_event) (\<lambda>ev.
      io_bind (expect_done ''receiver stream_failed'' ''receiver: expected Done'' ev) (\<lambda>_.
      io_bind (io_receive wd sender_cb (1000 * timeout) await_sender_done) (\<lambda>_.
      io_bind (\<lambda>w. (Inr (wd_elapsed wd w), w)) (\<lambda>elapsed.
      io_bind (wd_join_writer wd) (\<lambda>_.
      io_bind (\<lambda>w. if conn_stats_before = None then (Inr None, w)
                   else let (s, w') = query_conn_stats wd (tc_sender_c2i ctx) w in (Inr s, w')) (\<lambda>after.
      io_return \<lparr>ts_sha256_sent = sha256_sent, ts_sha256_rcvd = sha256_hex digest received,
        ts_rate_bytes_per_sec = f64_div (f64_of_nat bytes) (as_secs_f64 elapsed), ts_elapsed = elapsed\<rparr>)))))))))))))))))))"

section \<open>Checks\<close>

definition BW_TOLERANCE_LOW :: f64 where "BW_TOLERANCE_LOW = f64_round False 90 100"
definition BW_TOLERANCE_HIGH :: f64 where "BW_TOLERANCE_HIGH = f64_round False 110 100"
definition MIN_BW_TEST_BYTES :: nat where "MIN_BW_TEST_BYTES = 1024 * 1024"
definition MIN_BW_TEST_ELAPSED :: duration where "MIN_BW_TEST_ELAPSED = (0, 500000000)"

definition assert_bw_within_tolerance :: "transfer_stats \<Rightarrow> nat \<Rightarrow> string + unit" where
  "assert_bw_within_tolerance stats cap_bps =
     (let cap_bytes_per_sec = f64_div (f64_of_nat cap_bps) (f64_of_nat 8);
          low = f64_mul cap_bytes_per_sec BW_TOLERANCE_LOW;
          high = f64_mul cap_bytes_per_sec BW_TOLERANCE_HIGH
      in if f64_le low (ts_rate_bytes_per_sec stats) \<and> f64_le (ts_rate_bytes_per_sec stats) high then Inr ()
         else Inl ''BW out of tolerance'')"

text \<open>Durations are compared by seconds, then nanoseconds.\<close>

definition duration_le :: "duration \<Rightarrow> duration \<Rightarrow> bool" where
  "duration_le s t \<longleftrightarrow> fst s < fst t \<or> fst s = fst t \<and> snd s \<le> snd t"

definition check_transfer :: "test_context \<Rightarrow> nat \<Rightarrow> nat option \<Rightarrow> transfer_stats \<Rightarrow> string + unit" where
  "check_transfer ctx bytes cap_bps stats =
     (if ts_sha256_sent stats \<noteq> ts_sha256_rcvd stats then Inl ''sha256 MISMATCH''
      else case cap_bps of
             None \<Rightarrow> Inr ()
           | Some cap \<Rightarrow>
               if tc_skip_bw_check ctx then Inr ()
               else if MIN_BW_TEST_BYTES \<le> bytes \<and> duration_le MIN_BW_TEST_ELAPSED (ts_elapsed stats)
               then assert_bw_within_tolerance stats cap
               else Inr ())"

definition io_of :: "string + 'a \<Rightarrow> ('w, 'a) io" where
  "io_of r w = (r, w)"

section \<open>Subcommands that transfer files\<close>

text \<open>\<open>generate_test_data\<close> (the rand crate) and the identifiers drawn are arguments.\<close>

definition run_single_transfer :: "'w world \<Rightarrow> (u8 list \<Rightarrow> u8 list) \<Rightarrow> (nat \<Rightarrow> u8 list) \<Rightarrow> test_context \<Rightarrow> nat \<Rightarrow> nat option \<Rightarrow> string \<Rightarrow>
    ('w, unit) io" where
  "run_single_transfer wd digest generate_test_data ctx bytes cap_bps uuid =
     io_bind (run_transfer wd digest ctx (generate_test_data bytes) uuid NoInject (transfer_timeout bytes cap_bps)) (\<lambda>stats.
     io_of (check_transfer ctx bytes cap_bps stats))"

definition SPOOL_DROP_AFTER_BYTES :: nat where "SPOOL_DROP_AFTER_BYTES = 1024 * 1024"
definition SPOOL_FILL_FRACTION :: f64 where "SPOOL_FILL_FRACTION = f64_round False 50 100"

text \<open>The time the link is down, the bytes to write after it went down, and the timeout in seconds.\<close>

definition link_outage_plan :: "nat option \<Rightarrow> f64 \<times> nat \<times> nat" where
  "link_outage_plan cap_bps =
     (let rate_bytes_ps = map_option (\<lambda>c. f64_div (f64_of_nat c) (f64_of_nat 8)) cap_bps;
          link_down_secs = (case rate_bytes_ps of
              Some r \<Rightarrow> f64_div (f64_mul (f64_of_nat SPOOL_DROP_AFTER_BYTES) SPOOL_FILL_FRACTION) r
            | None \<Rightarrow> f64_of_nat 1);
          post_bytes = (case rate_bytes_ps of
              Some r \<Rightarrow> f64_to_u64 (f64_mul (f64_mul r link_down_secs) (f64_round False 3 2))
            | None \<Rightarrow> 512 * 1024);
          total_bytes = add_u64 SPOOL_DROP_AFTER_BYTES post_bytes;
          timeout = max (f64_to_u64 (f64_add
              (f64_mul (f64_div (f64_of_nat total_bytes) (unwrap_or rate_bytes_ps (f64_of_nat 10000000))) TIMEOUT_HEADROOM)
              (f64_mul link_down_secs (f64_of_nat 2)))) 60
      in (link_down_secs, total_bytes, timeout))"

definition run_multi_file_link_outage :: "'w world \<Rightarrow> (u8 list \<Rightarrow> u8 list) \<Rightarrow> (nat \<Rightarrow> u8 list) \<Rightarrow> test_context \<Rightarrow> nat list \<Rightarrow>
    nat option \<Rightarrow> (nat \<Rightarrow> string) \<Rightarrow> ('w, unit) io" where
  "run_multi_file_link_outage wd digest generate_test_data ctx file_sizes cap_bps uuids =
     (let (link_down_secs, total_bytes, timeout) = link_outage_plan cap_bps in
      io_bind (run_transfer wd digest ctx (generate_test_data total_bytes) (uuids 0)
        (Drop SPOOL_DROP_AFTER_BYTES link_down_secs (tc_sender_c2i ctx)) timeout) (\<lambda>stats1.
      io_bind (ensure (ts_sha256_sent stats1 = ts_sha256_rcvd stats1) ''link-outage file-1 sha256 MISMATCH'') (\<lambda>_.
      run_single_transfer wd digest generate_test_data ctx
        (if 1 < length file_sizes then file_sizes ! 1 else 64 * 1024) cap_bps (uuids 1))))"

definition run_multi_file_link_fail :: "addr \<Rightarrow> addr \<Rightarrow> ('w, unit) io" where
  "run_multi_file_link_fail sender_c2i receiver_c2i = io_return ()"

definition reverse_ctx :: "test_context \<Rightarrow> test_context" where
  "reverse_ctx ctx = ctx\<lparr>tc_sender_c2i := tc_receiver_c2i ctx, tc_receiver_c2i := tc_sender_c2i ctx\<rparr>"

text \<open>The loop over the file sizes both subcommands have; the i-th file uses the identifiers 2i and 2i + 1.\<close>

fun transfer_files :: "'w world \<Rightarrow> (u8 list \<Rightarrow> u8 list) \<Rightarrow> (nat \<Rightarrow> u8 list) \<Rightarrow> test_context \<Rightarrow> bool \<Rightarrow> nat option \<Rightarrow>
    (nat \<Rightarrow> string) \<Rightarrow> nat \<Rightarrow> nat list \<Rightarrow> ('w, unit) io" where
  "transfer_files wd digest gen ctx bidirectional cap_bps uuids i [] = io_return ()"
| "transfer_files wd digest gen ctx bidirectional cap_bps uuids i (sz # sizes) =
     io_bind (run_single_transfer wd digest gen ctx sz cap_bps (uuids (2 * i))) (\<lambda>_.
     io_bind (if bidirectional then run_single_transfer wd digest gen (reverse_ctx ctx) sz cap_bps (uuids (2 * i + 1))
              else io_return ()) (\<lambda>_.
     transfer_files wd digest gen ctx bidirectional cap_bps uuids (Suc i) sizes))"

text \<open>\<open>--size-mb\<close> is an \<open>f32\<close>; multiplying it by powers of two is exact, so it is done as for \<open>f64\<close> here.\<close>

record multi_file_args =
  mf_large :: bool
  mf_small :: bool
  mf_size_mb :: "f64 option"
  mf_duration_secs :: "nat option"
  mf_count :: nat
  mf_bidirectional :: bool
  mf_link_outage :: bool
  mf_link_fail :: bool

definition multi_file_sizes :: "multi_file_args \<Rightarrow> nat option \<Rightarrow> nat list" where
  "multi_file_sizes args cap_bps =
     (if mf_large args then [30 * 1024 * 1024, 2 * 1024 * 1024, 512 * 1024]
      else if mf_small args then [9000, 1024, 512, 1]
      else case mf_size_mb args of
             Some mb \<Rightarrow> replicate (mf_count args) (f64_to_u64 (f64_mul (f64_mul mb (f64_of_nat 1024)) (f64_of_nat 1024)))
           | None \<Rightarrow>
               (case mf_duration_secs args of
                  Some secs \<Rightarrow> replicate (mf_count args) (case cap_bps of Some c \<Rightarrow> mul_u64 (c div 8) secs | None \<Rightarrow> 32 * 1024 * 1024)
                | None \<Rightarrow> replicate (mf_count args) (case cap_bps of Some c \<Rightarrow> mul_u64 (c div 8) 10 | None \<Rightarrow> 32 * 1024 * 1024)))"

definition cmd_multi_file :: "'w world \<Rightarrow> (u8 list \<Rightarrow> u8 list) \<Rightarrow> (nat \<Rightarrow> u8 list) \<Rightarrow> test_context \<Rightarrow> multi_file_args \<Rightarrow>
    (nat \<Rightarrow> string) \<Rightarrow> ('w, unit) io" where
  "cmd_multi_file wd digest gen ctx args uuids =
     io_bind (ensure_agent_running wd (tc_sender_c2i ctx)) (\<lambda>_.
     io_bind (ensure_agent_running wd (tc_receiver_c2i ctx)) (\<lambda>_.
     io_bind (query_cap wd (tc_sender_c2i ctx)) (\<lambda>cap_bps.
       let file_sizes = multi_file_sizes args cap_bps
       in if mf_link_outage args then run_multi_file_link_outage wd digest gen ctx file_sizes cap_bps uuids
          else if mf_link_fail args then run_multi_file_link_fail (tc_sender_c2i ctx) (tc_receiver_c2i ctx)
          else transfer_files wd digest gen ctx (mf_bidirectional args) cap_bps uuids 0 file_sizes)))"

definition set_chunk_sizes :: "'w world \<Rightarrow> test_context \<Rightarrow> int \<Rightarrow> ('w, unit) io" where
  "set_chunk_sizes wd ctx n =
     io_bind (wd_set_chunk_size_bytes wd (tc_sender_c2i ctx) n) (\<lambda>_.
     wd_set_chunk_size_bytes wd (tc_receiver_c2i ctx) n)"

definition cmd_small_file_edge_cases :: "'w world \<Rightarrow> (u8 list \<Rightarrow> u8 list) \<Rightarrow> (nat \<Rightarrow> u8 list) \<Rightarrow> test_context \<Rightarrow> bool \<Rightarrow>
    (nat \<Rightarrow> string) \<Rightarrow> ('w, unit) io" where
  "cmd_small_file_edge_cases wd digest gen ctx bidirectional uuids =
     io_bind (ensure_agent_running wd (tc_sender_c2i ctx)) (\<lambda>_.
     io_bind (ensure_agent_running wd (tc_receiver_c2i ctx)) (\<lambda>_.
     io_bind (query_cap wd (tc_sender_c2i ctx)) (\<lambda>cap.
     io_bind (set_chunk_sizes wd ctx 1024) (\<lambda>_.
     io_bind (transfer_files wd digest gen ctx bidirectional cap uuids 0 [9000, 1024, 512, 1]) (\<lambda>_.
     set_chunk_sizes wd ctx 0)))))"

section \<open>Subcommands on the queue\<close>

text \<open>\<open>cmd_drr\<close>: an anchor stream that takes the only slot, and small ones of other priorities queued behind it.\<close>

fun queue_small :: "'w world \<Rightarrow> addr \<Rightarrow> (string \<times> 8 word \<times> string) list \<Rightarrow> ('w, unit) io" where
  "queue_small wd a [] = io_return ()"
| "queue_small wd a ((uuid, pri, label) # rest) =
     io_bind (wd_stream_start wd a uuid \<lparr>w_size_bytes = Some 4096, w_attrs = Some [''label'' \<mapsto> label]\<rparr> pri) (\<lambda>result.
     io_bind (ensure (1 \<le> unwrap_or (wr_queue_position result) 0) ''stream_start queue_position mismatch'') (\<lambda>_.
     io_bind (ensure (wr_status result = Some PENDING) ''stream_start failed'') (\<lambda>_.
     queue_small wd a rest)))"

definition drr_anchor_bytes :: "nat option \<Rightarrow> nat" where
  "drr_anchor_bytes cap_bps = (case cap_bps of Some c \<Rightarrow> mul_u64 (c div 8) 3 | None \<Rightarrow> 4 * 1024 * 1024)"

definition cmd_drr :: "'w world \<Rightarrow> (u8 list \<Rightarrow> u8 list) \<Rightarrow> (nat \<Rightarrow> u8 list) \<Rightarrow> test_context \<Rightarrow> nat \<Rightarrow> string \<Rightarrow> string list \<Rightarrow> ('w, unit) io" where
  "cmd_drr wd digest gen ctx file_count anchor_uuid uuids =
     io_bind (ensure_agent_running wd (tc_sender_c2i ctx)) (\<lambda>_.
     io_bind (query_cap wd (tc_sender_c2i ctx)) (\<lambda>cap_bps.
     io_bind (wd_set_max_concurrent wd (tc_sender_c2i ctx) 1) (\<lambda>_.
       let anchor_bytes = drr_anchor_bytes cap_bps;
           anchor_payload = gen anchor_bytes;
           anchor_sha256 = sha256_hex digest anchor_payload;
           timeout = 1000 * transfer_timeout anchor_bytes cap_bps;
           priorities = take file_count [(10, ''low''), (30, ''high''), (20, ''med'')]
       in
     io_bind (wd_bind_callback wd) (\<lambda>anchor_cb.
     io_bind (wd_bind_callback wd) (\<lambda>receiver_cb.
     io_bind (register_callbacks wd ctx anchor_cb receiver_cb) (\<lambda>_.
     io_bind (wd_stream_start wd (tc_sender_c2i ctx) anchor_uuid
       \<lparr>w_size_bytes = Some (as_i64 anchor_bytes), w_attrs = Some [''sha256'' \<mapsto> anchor_sha256]\<rparr> 0) (\<lambda>result.
     io_bind (ensure (wr_status result = Some RUNNING) ''stream_start failed'') (\<lambda>_.
     io_bind (queue_small wd (tc_sender_c2i ctx) (zip uuids priorities)) (\<lambda>_.
     io_bind (io_receive wd anchor_cb timeout (recv_event_for anchor_uuid)) (\<lambda>ev.
     io_bind (expect_started ''drr anchor: expected Started'' ev) (\<lambda>anchor_port.
     io_bind (\<lambda>w. (Inr (), wd_spawn_writer wd (tc_sender_c2i ctx) anchor_port (Some [WriteAll anchor_payload]) w)) (\<lambda>_.
     io_bind (io_receive wd receiver_cb timeout (recv_event_for anchor_uuid)) (\<lambda>ev.
     io_bind (expect_started ''drr anchor receiver: expected Started'' ev) (\<lambda>receiver_port.
     io_bind (wd_read wd (tc_receiver_c2i ctx) receiver_port timeout) (\<lambda>received.
     io_bind (io_receive wd receiver_cb timeout (recv_event_for anchor_uuid)) (\<lambda>ev.
     io_bind (expect_done ''drr anchor receiver stream_failed'' ''drr anchor receiver: expected Done'' ev) (\<lambda>_.
     io_bind (io_receive wd anchor_cb timeout (recv_event_for anchor_uuid)) (\<lambda>ev.
     io_bind (expect_done ''drr anchor sender stream_failed'' ''drr anchor sender: expected Done'' ev) (\<lambda>_.
     io_bind (wd_join_writer wd) (\<lambda>_.
     io_bind (ensure (anchor_sha256 = sha256_hex digest received) ''drr anchor sha256 MISMATCH'') (\<lambda>_.
     wd_set_max_concurrent wd (tc_sender_c2i ctx) 0)))))))))))))))))))))"

text \<open>\<open>cmd_max_concurrent\<close>. First the priorities: spread over 1 to 62, then taken from front and back alternately.\<close>

definition generated_priorities :: "nat \<Rightarrow> 8 word list" where
  "generated_priorities stream_count =
     (let step = 62 div stream_count in map (\<lambda>i. word_of_nat (min (i * step) 62)) [1..<Suc stream_count])"

function interleave :: "'a list \<Rightarrow> nat \<Rightarrow> nat \<Rightarrow> bool \<Rightarrow> 'a list \<Rightarrow> 'a list" where
  "interleave generated lo hi take_lo priorities =
     (if hi < lo then priorities
      else if lo = hi then priorities @ [generated ! lo]
      else if take_lo then interleave generated (lo + 1) hi False (priorities @ [generated ! lo])
      else interleave generated lo (hi - 1) True (priorities @ [generated ! hi]))"
  by pat_completeness auto
termination by (relation "measure (\<lambda>(generated, lo, hi, take_lo, priorities). Suc hi - lo)") auto

declare interleave.simps [simp del]

definition submission_priorities :: "nat \<Rightarrow> 8 word list" where
  "submission_priorities stream_count =
     (let generated = generated_priorities stream_count in interleave generated 0 (length generated - 1) True [])"

text \<open>\<open>sort_by_key\<close> with \<open>Reverse\<close> of the signed priority is stable.\<close>

definition expected_pending :: "nat \<Rightarrow> (8 word \<times> string) list \<Rightarrow> string list" where
  "expected_pending max_concurrent streams = map snd (sort_key (\<lambda>e. - sint (fst e)) (drop max_concurrent streams))"

fun submit_streams :: "'w world \<Rightarrow> addr \<Rightarrow> nat \<Rightarrow> (8 word \<times> string) list \<Rightarrow> ('w, wire_start_return list) io" where
  "submit_streams wd a i [] = io_return []"
| "submit_streams wd a i ((pri, uuid) # rest) =
     io_bind (wd_stream_start wd a uuid \<lparr>w_size_bytes = Some 4096, w_attrs = Some [''label'' \<mapsto> ''mc-stream-'' @ show_nat i]\<rparr> pri) (\<lambda>result.
     io_bind (submit_streams wd a (Suc i) rest) (\<lambda>results. io_return (result # results)))"

fun count_results :: "wire_start_return list \<Rightarrow> nat \<Rightarrow> nat \<Rightarrow> string + (nat \<times> nat)" where
  "count_results [] running pending = Inr (running, pending)"
| "count_results (r # rs) running pending =
     (case wr_status r of
        None \<Rightarrow> Inl ''stream_start returned no status''
      | Some RUNNING \<Rightarrow>
          if wr_queue_position r = None \<or> wr_queue_position r = Some 0 then count_results rs (running + 1) pending
          else Inl ''RUNNING but queue_position''
      | Some PENDING \<Rightarrow>
          (case wr_queue_position r of
             None \<Rightarrow> Inl ''PENDING but no queue_position''
           | Some pos \<Rightarrow> if 1 \<le> pos then count_results rs running (pending + 1) else Inl ''PENDING but queue_position'')
      | Some _ \<Rightarrow> Inl ''expected RUNNING or PENDING'')"

definition cmd_max_concurrent :: "'w world \<Rightarrow> test_context \<Rightarrow> nat \<Rightarrow> nat \<Rightarrow> string list \<Rightarrow> ('w, unit) io" where
  "cmd_max_concurrent wd ctx max_concurrent stream_count uuids =
     io_bind (ensure_agent_running wd (tc_sender_c2i ctx)) (\<lambda>_.
     io_bind (ensure (max_concurrent < stream_count) ''--stream-count must be > --max-concurrent'') (\<lambda>_.
     io_bind (wd_set_max_concurrent wd (tc_sender_c2i ctx) (as_i32 max_concurrent)) (\<lambda>_.
     io_bind (wd_bind_callback wd) (\<lambda>cb.
     io_bind (wd_set_callback wd (tc_sender_c2i ctx) cb) (\<lambda>e.
     io_bind (ensure (e = []) ''set_callback'') (\<lambda>_.
       let streams = zip (submission_priorities stream_count) uuids
       in
     io_bind (submit_streams wd (tc_sender_c2i ctx) 0 streams) (\<lambda>results.
     io_bind (io_of (count_results results 0 0)) (\<lambda>(running_count, pending_count).
     io_bind (ensure (running_count = max_concurrent) ''expected RUNNING streams'') (\<lambda>_.
     io_bind (ensure (pending_count = stream_count - max_concurrent) ''expected PENDING streams'') (\<lambda>_.
     io_bind (io_receive wd cb 200 (\<lambda>evs. (Inr (last_queue_status None evs), []))) (\<lambda>last_status.
       case last_status of
         None \<Rightarrow> io_fail ''no QueueStatus callback received''
       | Some qs \<Rightarrow>
     io_bind (ensure (w_active_count qs = Some (as_i32 max_concurrent)) ''QueueStatus: active_count'') (\<lambda>_.
     io_bind (ensure (unwrap_or (w_pending qs) [] = expected_pending max_concurrent streams) ''QueueStatus pending order mismatch'') (\<lambda>_.
     wd_set_max_concurrent wd (tc_sender_c2i ctx) 0)))))))))))))"

section \<open>The program\<close>

datatype e2e_command = MultiFile multi_file_args | Drr nat | SmallFileEdgeCases bool | MaxConcurrent nat nat

definition e2e_main :: "'w world \<Rightarrow> (u8 list \<Rightarrow> u8 list) \<Rightarrow> (nat \<Rightarrow> u8 list) \<Rightarrow> (nat \<Rightarrow> string) \<Rightarrow> string \<Rightarrow> string \<Rightarrow> bool \<Rightarrow> e2e_command \<Rightarrow>
    ('w, unit) io" where
  "e2e_main wd digest gen uuids sender_c2i receiver_c2i skip_bw_check cmd =
     io_bind (io_of (resolve_addr wd sender_c2i)) (\<lambda>s.
     io_bind (io_of (resolve_addr wd receiver_c2i)) (\<lambda>r.
       let ctx = \<lparr>tc_sender_c2i = s, tc_receiver_c2i = r, tc_skip_bw_check = skip_bw_check\<rparr>
       in case cmd of
            MultiFile args \<Rightarrow> cmd_multi_file wd digest gen ctx args uuids
          | Drr file_count \<Rightarrow> cmd_drr wd digest gen ctx file_count (uuids 0) (map uuids [1..<Suc file_count])
          | SmallFileEdgeCases bidirectional \<Rightarrow> cmd_small_file_edge_cases wd digest gen ctx bidirectional uuids
          | MaxConcurrent max_concurrent stream_count \<Rightarrow> cmd_max_concurrent wd ctx max_concurrent stream_count (map uuids [0..<stream_count])))"

section \<open>Lemmas\<close>

lemma io_bind_return: "m w = (Inr x, w') \<Longrightarrow> io_bind m f w = f x w'"
  by (simp add: io_bind_def)

lemma io_bind_fail: "m w = (Inl e, w') \<Longrightarrow> io_bind m f w = (Inl e, w')"
  by (simp add: io_bind_def)

lemma io_bind_ok:
  assumes "io_bind m f w = (Inr y, w'')"
  obtains x w' where "m w = (Inr x, w')" and "f x w' = (Inr y, w'')"
  using assms by (auto simp: io_bind_def split: sum.splits prod.splits)

lemma ensure_simps [simp]: "b \<Longrightarrow> ensure b e w = (Inr (), w)" "\<not> b \<Longrightarrow> ensure b e w = (Inl e, w)"
  by (simp_all add: ensure_def io_return_def io_fail_def)

lemma io_simps [simp]: "io_return x w = (Inr x, w)" "io_fail e w = (Inl e, w)" "io_of r w = (r, w)"
  by (simp_all add: io_return_def io_fail_def io_of_def)

text \<open>The bytes a writer sends.\<close>

fun written :: "write_action list \<Rightarrow> u8 list" where
  "written [] = []"
| "written (WriteAll bs # acts) = bs @ written acts"
| "written (_ # acts) = written acts"

lemma writer_sends_payload: "writer_actions inject payload = Some acts \<Longrightarrow> written acts = payload"
  by (cases inject) (auto split: if_splits)

text \<open>The interleaving is a permutation: what is between lo and hi is still to come.\<close>

lemma slice_Cons: "lo \<le> hi \<Longrightarrow> hi < length xs \<Longrightarrow> take (Suc hi - lo) (drop lo xs) = xs ! lo # take (hi - lo) (drop (Suc lo) xs)"
  by (subst Cons_nth_drop_Suc [symmetric]) (simp_all add: Suc_diff_le)

lemma slice_snoc: "lo \<le> hi \<Longrightarrow> hi < length xs \<Longrightarrow> take (Suc hi - lo) (drop lo xs) = take (hi - lo) (drop lo xs) @ [xs ! hi]"
  by (simp add: Suc_diff_le take_Suc_conv_app_nth)

lemma mset_interleave:
  "hi < length xs \<Longrightarrow> lo \<le> hi \<Longrightarrow> mset (interleave xs lo hi b acc) = mset acc + mset (take (Suc hi - lo) (drop lo xs))"
proof (induction xs lo hi b acc rule: interleave.induct)
  case (1 xs lo hi b acc)
  show ?case
  proof (cases "lo = hi")
    case True
    then show ?thesis using 1 slice_Cons [of lo hi xs] by (simp add: interleave.simps)
  next
    case False
    then have lt: "lo < hi" using 1 by simp
    show ?thesis
    proof (cases b)
      case True
      then show ?thesis using 1 lt slice_Cons [of lo hi xs] by (subst interleave.simps) simp
    next
      case b: False
      have "Suc (hi - 1) - lo = hi - lo" using lt by simp
      then show ?thesis using 1 lt b slice_snoc [of lo hi xs] by (subst interleave.simps) simp
    qed
  qed
qed

lemma submission_priorities_mset:
  assumes "0 < stream_count"
  shows "mset (submission_priorities stream_count) = mset (generated_priorities stream_count)"
proof -
  have l: "length (generated_priorities stream_count) = stream_count" by (simp add: generated_priorities_def Let_def)
  then show ?thesis using mset_interleave [of "stream_count - 1" "generated_priorities stream_count" 0 True "[]"] assms
    by (simp add: submission_priorities_def Let_def)
qed

lemma length_submission_priorities: "0 < stream_count \<Longrightarrow> length (submission_priorities stream_count) = stream_count"
  using submission_priorities_mset [of stream_count] mset_eq_length by (fastforce simp: generated_priorities_def Let_def)

section \<open>Properties\<close>

text \<open>A transfer is given enough time. The timeout is at least 30 seconds and at least four times what the bytes
  take at the cap, rounded down to a second, whatever the rounding of the floating point computation.\<close>

theorem transfer_timeout_enough:
  assumes "0 < cap" "cap < 2 ^ 53" "32 * bytes < 2 ^ 53"
  shows "30 \<le> transfer_timeout bytes (Some cap) \<and> 32 * bytes div cap \<le> transfer_timeout bytes (Some cap)"
proof -
  define k where "k = 32 * bytes div cap"
  have kb: "k \<le> 32 * bytes" unfolding k_def by (rule div_le_dividend)
  then have k: "k < 2 ^ 53" using assms(3) by simp
  obtain m e where c: "f64_div (f64_of_nat cap) (f64_of_nat 8) = Fin False m e" "real m * 2 powi e = real cap / 8"
    by (rule cap_in_bytes [OF assms(1,2)])
  have "bytes < 2 ^ 53" using assms(3) by simp
  then obtain m1 e1 where b: "f64_of_nat bytes = Fin False m1 e1" "real m1 * 2 powi e1 = real bytes" by (rule f64_of_nat_exact)
  have "0 < real m * 2 powi e" using c(2) assms(1) by simp
  then have "0 < m" by (cases m) auto
  then obtain p q where x: "f64_div (Fin False m1 e1) (Fin False m e) = f64_round False p q" "0 < q"
    "ratio p q = (real m1 * 2 powi e1) / (real m * 2 powi e)" by (rule f64_div_pos)
  have pq: "ratio p q = 8 * real bytes / real cap" using x(3) b(2) c(2) by simp
  have "k * cap \<le> 32 * bytes" by (simp add: k_def)
  then have "real k * real cap \<le> 32 * real bytes" by (metis of_nat_le_iff of_nat_mult of_nat_numeral)
  then have low: "real k * 2 powi (- 2) \<le> ratio p q" unfolding pq using assms(1) by (simp add: power_int_minus field_simps)
  have rep: "representable (real k * 2 powi (- 2))" by (rule representable_shift [OF k]) simp_all
  have up: "ratio p q \<le> 2 powi 60"
  proof -
    have "8 * real bytes * 1 \<le> 8 * real bytes * real cap" using assms(1) by (intro mult_left_mono) auto
    then have "8 * real bytes / real cap \<le> 8 * real bytes" using assms(1) by (simp add: divide_le_eq)
    also have "\<dots> \<le> 2 powi 60" using assms(3) by simp
    finally show ?thesis unfolding pq .
  qed
  have "representable (2 powi 60)" using representable_shift [of 1 60] by simp
  from f64r.rnd_upper [OF this _ x(2) up] obtain m2 e2 where y: "f64_round False p q = Fin False m2 e2" by auto
  have v: "real k * 2 powi (- 2) \<le> real m2 * 2 powi e2" using f64r.rnd_lower [OF rep _ x(2) low] y by auto
  obtain m3 e3 where h: "f64_of_nat 4 = Fin False m3 e3" "real m3 * 2 powi e3 = real 4" by (rule f64_of_nat_exact [of 4]) auto
  obtain p' q' where z: "f64_mul (Fin False m2 e2) (Fin False m3 e3) = f64_round False p' q'" "0 < q'"
    "ratio p' q' = (real m2 * 2 powi e2) * (real m3 * 2 powi e3)" by (rule f64_mul_pos)
  have "real k \<le> ratio p' q'" using v z(3) h(2) by (simp add: power_int_minus)
  then have "k \<le> f64_to_u64 (f64_round False p' q')" by (rule to_u64_ge [OF z(2) _ k])
  moreover have "transfer_timeout bytes (Some cap) = max (f64_to_u64 (f64_round False p' q')) TIMEOUT_MIN_SECS"
    unfolding transfer_timeout_def TIMEOUT_HEADROOM_def Let_def option.case c(1) b(1) x(1) y h(1) z(1) by (rule refl)
  ultimately show ?thesis by (simp add: k_def TIMEOUT_MIN_SECS_def)
qed

theorem transfer_timeout_enough_witness: "100 \<le> transfer_timeout 31250000 (Some 10000000)"
  using transfer_timeout_enough [of 10000000 31250000] by simp

text \<open>The printed digest determines the digest.\<close>

lemma hex_digit_inj: "a < 16 \<Longrightarrow> b < 16 \<Longrightarrow> hex_digit a = hex_digit b \<Longrightarrow> a = b"
proof -
  assume ab: "a < 16" "b < 16" and eq: "hex_digit a = hex_digit b"
  then have "of_char (hex_digit a) = (of_char (hex_digit b) :: nat)" by simp
  then show "a = b" using ab by (simp add: hex_digit_def take_bit_eq_mod split: if_splits)
qed

lemma hex_list_inj:
  fixes xs ys :: "u8 list"
  assumes "concat (map (\<lambda>b. [hex_digit (unat b div 16), hex_digit (unat b mod 16)]) xs) =
    concat (map (\<lambda>b. [hex_digit (unat b div 16), hex_digit (unat b mod 16)]) ys)"
  shows "xs = ys"
  using assms
proof (induction xs arbitrary: ys)
  case Nil
  then show ?case by (cases ys) auto
next
  case (Cons x xs)
  then obtain y ys' where ys: "ys = y # ys'" by (cases ys) auto
  have b: "unat x < 256" "unat y < 256" by (rule order_less_le_trans [OF unsigned_less], simp)+
  have "unat x div 16 = unat y div 16" by (rule hex_digit_inj) (use Cons.prems ys b in auto)
  moreover have "unat x mod 16 = unat y mod 16" by (rule hex_digit_inj) (use Cons.prems ys in auto)
  ultimately have "unat x = unat y" by (metis div_mult_mod_eq)
  then have "x = y" by (rule unsigned_word_eqI)
  then show ?case using Cons ys by simp
qed

lemma sha256_hex_eq: "sha256_hex digest xs = sha256_hex digest ys \<longleftrightarrow> digest xs = digest ys"
  using hex_list_inj by (auto simp: sha256_hex_def)

lemma run_transfer_read:
  assumes "run_transfer wd digest ctx payload uuid inject timeout w = (Inr stats, w')"
  obtains port received w1 w2 where "wd_read wd (tc_receiver_c2i ctx) port (1000 * timeout) w1 = (Inr received, w2)"
    and "ts_sha256_sent stats = sha256_hex digest payload" and "ts_sha256_rcvd stats = sha256_hex digest received"
  using assms unfolding run_transfer_def Let_def
  by (elim io_bind_ok) (auto simp: io_return_def)

text \<open>What a passed transfer says: the receiver's port was read to the end and gave bytes with the digest of the payload.\<close>

definition delivered :: "'w world \<Rightarrow> (u8 list \<Rightarrow> u8 list) \<Rightarrow> addr \<Rightarrow> u8 list \<Rightarrow> bool" where
  "delivered wd digest receiver payload \<longleftrightarrow>
     (\<exists>port timeout received w1 w2. wd_read wd receiver port timeout w1 = (Inr received, w2) \<and> digest received = digest payload)"

lemma single_transfer_delivered:
  assumes "run_single_transfer wd digest gen ctx bytes cap_bps uuid w = (Inr (), w')"
  shows "delivered wd digest (tc_receiver_c2i ctx) (gen bytes)"
proof -
  from assms obtain stats w1 where run: "run_transfer wd digest ctx (gen bytes) uuid NoInject (transfer_timeout bytes cap_bps) w = (Inr stats, w1)"
    and check: "check_transfer ctx bytes cap_bps stats = Inr ()"
    unfolding run_single_transfer_def by (elim io_bind_ok) auto
  obtain port received w2 w3 where "wd_read wd (tc_receiver_c2i ctx) port (1000 * transfer_timeout bytes cap_bps) w2 = (Inr received, w3)"
    and "ts_sha256_sent stats = sha256_hex digest (gen bytes)" "ts_sha256_rcvd stats = sha256_hex digest received"
    by (rule run_transfer_read [OF run])
  moreover have "ts_sha256_sent stats = ts_sha256_rcvd stats" using check by (simp add: check_transfer_def split: if_splits)
  ultimately show ?thesis unfolding delivered_def by (metis sha256_hex_eq)
qed

lemma reverse_receiver [simp]: "tc_receiver_c2i (reverse_ctx ctx) = tc_sender_c2i ctx"
  by (simp add: reverse_ctx_def)


text \<open>Two agents as one process: what the writer sends is what the receiver's port gives.\<close>

definition loopback :: "((nat \<Rightarrow> test_callback_event list) \<times> nat \<times> u8 list) world" where
  "loopback = \<lparr>
     wd_resolve = (\<lambda>s. Inr [0]),
     wd_reachable = (\<lambda>a w. True),
     wd_bind_callback = (\<lambda>(f, n, d). (Inr n, (f(n := [Started ''u'' 5000, Done ''u'' 1]), Suc n, d))),
     wd_set_callback = (\<lambda>a cb w. (Inr [], w)),
     wd_stream_start = (\<lambda>a u info pri w. (Inr \<lparr>wr_status = Some RUNNING, wr_queue_position = Some 0\<rparr>, w)),
     wd_set_max_concurrent = (\<lambda>a n w. (Inr (), w)),
     wd_set_chunk_size_bytes = (\<lambda>a n w. (Inr (), w)),
     wd_get_bandwidth_cap_bps = (\<lambda>a w. (Inr 0, w)),
     wd_get_conn_stats = (\<lambda>a w. (Inl ''down'', w)),
     wd_events = (\<lambda>cb t (f, n, d). f cb),
     wd_set_events = (\<lambda>cb evs (f, n, d). (f(cb := evs), n, d)),
     wd_progress_count = (\<lambda>cb w. 0),
     wd_spawn_writer = (\<lambda>a p acts (f, n, d). (f, n, written (the acts))),
     wd_join_writer = (\<lambda>w. (Inr (), w)),
     wd_read = (\<lambda>a p t (f, n, d). (Inr d, (f, n, d))),
     wd_elapsed = (\<lambda>w. (1, 0))\<rparr>"

lemma loopback_transfer:
  "\<exists>w'. run_single_transfer loopback digest gen ctx bytes None uuid w = (Inr (), w')"
  by (cases w) (simp add: run_single_transfer_def run_transfer_def Let_def io_bind_def register_callbacks_def query_conn_stats_def
    io_receive_def recv_event_def expect_started_def expect_done_def loopback_def check_transfer_def)

lemma loopback_files: "\<exists>w'. transfer_files loopback digest gen ctx bidirectional None uuids i sizes w = (Inr (), w')"
proof (induction sizes arbitrary: i w)
  case Nil
  show ?case by (cases w) simp
next
  case (Cons sz sizes)
  obtain w1 where one: "run_single_transfer loopback digest gen ctx sz None (uuids (2 * i)) w = (Inr (), w1)"
    using loopback_transfer by blast
  obtain w2 where two: "run_single_transfer loopback digest gen (reverse_ctx ctx) sz None (uuids (2 * i + 1)) w1 = (Inr (), w2)"
    using loopback_transfer by blast
  obtain w3 w4 where "transfer_files loopback digest gen ctx bidirectional None uuids (Suc i) sizes w1 = (Inr (), w3)"
    "transfer_files loopback digest gen ctx bidirectional None uuids (Suc i) sizes w2 = (Inr (), w4)"
    using Cons.IH [of "Suc i" w1] Cons.IH [of "Suc i" w2] by blast
  with one two show ?case by (cases bidirectional; cases w3; cases w4) (simp_all add: io_bind_def)
qed


end
