(* ===== verification/E2e_Admission.thy ===== *)
theory E2e_Admission
  imports E2e_Test
begin

text \<open>
  The queue tests of the end-to-end program (drr.rs and max_concurrent.rs) run against the model of the
  agent.

  The locale \<open>admission\<close> is what those tests rely on of an agent: how it admits, queues and reports streams. The
  outcome of the tests is proved from it. It is interpreted on the composition of the modelled parts: the Thrift
  handlers, the agent loop, the session manager, the callback agent and the test's callback server.
\<close>

section \<open>What the tests rely on\<close>

record view =
  v_limit :: "nat option"
  v_active :: nat
  v_pending :: "(8 word \<times> string) list"
  v_room :: nat

text \<open>A stable insertion sort, in descending priority.\<close>

lemma insert_stable:
  fixes p :: "8 word"
  assumes "\<forall>x \<in> set (take k q). sint p \<le> sint (fst x)" "\<forall>x \<in> set (drop k q). sint (fst x) < sint p"
    and "q = sort_key (\<lambda>e. - sint (fst e)) xs"
  shows "take k q @ (p, u) # drop k q = sort_key (\<lambda>e. - sint (fst e)) (xs @ [(p, u)])"
proof (rule properties_for_sort_key [symmetric])
  let ?f = "\<lambda>e :: 8 word \<times> 'b. - sint (fst e)"
  have q: "take k q @ drop k q = q" by simp
  have "mset (take k q @ drop k q) = mset xs" unfolding q assms(3) by simp
  then show "mset (take k q @ (p, u) # drop k q) = mset (xs @ [(p, u)])" by (simp del: append_take_drop_id)
  have srt: "sorted (map ?f (take k q @ drop k q))" unfolding q assms(3) by simp
  show "sorted (map ?f (take k q @ (p, u) # drop k q))"
    using srt assms(1,2) by (auto simp: sorted_append simp del: append_take_drop_id)
  fix e
  assume "e \<in> set (take k q @ (p, u) # drop k q)"
  have split: "filter (\<lambda>x. ?f e = ?f x) xs = filter (\<lambda>x. ?f e = ?f x) (take k q) @ filter (\<lambda>x. ?f e = ?f x) (drop k q)"
    using sort_key_stable [of ?f "?f e" xs] assms(3) q by (metis (mono_tags, lifting) filter_append filter_cong)
  show "filter (\<lambda>x. ?f e = ?f x) (take k q @ (p, u) # drop k q) = filter (\<lambda>x. ?f e = ?f x) (xs @ [(p, u)])"
  proof (cases "?f e = - sint p")
    case True
    have "filter (\<lambda>x. - sint p = ?f x) (drop k q) = []" using assms(2) by (fastforce simp: filter_empty_conv)
    then show ?thesis using split unfolding True by simp
  qed (use split in simp)
qed

lemma submit_append:
  "submit_streams wd a i (xs @ ys) w =
     io_bind (submit_streams wd a i xs) (\<lambda>r. io_bind (submit_streams wd a (i + length xs) ys) (\<lambda>s. io_return (r @ s))) w"
  by (induction xs arbitrary: i w) (auto simp: io_bind_def split: sum.splits prod.splits)

lemma count_running:
  "count_results (replicate n \<lparr>wr_status = Some RUNNING, wr_queue_position = None\<rparr> @ rs) k p = count_results rs (k + n) p"
  by (induction n arbitrary: k) auto

lemma count_pending:
  "\<forall>r \<in> set rs. wr_status r = Some PENDING \<and> (\<exists>pos \<ge> 1. wr_queue_position r = Some pos) \<Longrightarrow>
   count_results rs k p = Inr (k, p + length rs)"
  by (induction rs arbitrary: p) auto

locale admission =
  fixes wd :: "'w world" and a :: addr and ok :: "'w \<Rightarrow> bool" and view :: "'w \<Rightarrow> view"
    and fresh :: "string \<Rightarrow> 'w \<Rightarrow> bool" and listening :: "nat \<Rightarrow> 'w \<Rightarrow> bool"
  assumes reachable: "ok w \<Longrightarrow> wd_reachable wd a w"
    and set_limit: "ok w \<Longrightarrow> 0 \<le> n \<Longrightarrow> n < 2 ^ 31 \<Longrightarrow>
      \<exists>w'. wd_set_max_concurrent wd a n w = (Inr (), w') \<and> ok w' \<and> v_limit (view w') = (if n = 0 then None else Some (nat n)) \<and>
        v_room (view w') = v_room (view w) \<and> v_active (view w) \<le> v_active (view w') \<and>
        (v_pending (view w) = [] \<longrightarrow> v_active (view w') = v_active (view w) \<and> v_pending (view w') = []) \<and>
        (\<forall>u. fresh u w \<longrightarrow> fresh u w')"
    and bind_cb: "ok w \<Longrightarrow> \<exists>cb w'. wd_bind_callback wd w = (Inr cb, w') \<and> ok w' \<and> view w' = view w \<and> (\<forall>u. fresh u w \<longrightarrow> fresh u w')"
    and set_cb: "ok w \<Longrightarrow> \<exists>w'. wd_set_callback wd a cb w = (Inr [], w') \<and> ok w' \<and> view w' = view w \<and>
        (\<forall>u. fresh u w \<longrightarrow> fresh u w') \<and> listening cb w'"
    and set_cb_other: "ok w \<Longrightarrow> wd_set_callback wd b cb w = (res, w') \<Longrightarrow> ok w' \<and> view w' = view w"
    and start_runs: "ok w \<Longrightarrow> fresh u w \<Longrightarrow> v_limit (view w) = Some l \<Longrightarrow> v_active (view w) < l \<Longrightarrow>
      \<exists>w'. wd_stream_start wd a u info p w = (Inr \<lparr>wr_status = Some RUNNING, wr_queue_position = None\<rparr>, w') \<and> ok w' \<and>
        view w' = (view w)\<lparr>v_active := Suc (v_active (view w))\<rparr> \<and> (\<forall>v. v \<noteq> u \<longrightarrow> fresh v w \<longrightarrow> fresh v w') \<and>
        (\<forall>cb. listening cb w \<longrightarrow> listening cb w')"
    and start_waits: "ok w \<Longrightarrow> fresh u w \<Longrightarrow> v_limit (view w) = Some l \<Longrightarrow> l \<le> v_active (view w) \<Longrightarrow>
      length (v_pending (view w)) < v_room (view w) \<Longrightarrow> v_room (view w) < 2 ^ 31 \<Longrightarrow>
      \<exists>w' pos k. wd_stream_start wd a u info p w = (Inr \<lparr>wr_status = Some PENDING, wr_queue_position = Some pos\<rparr>, w') \<and> 1 \<le> pos \<and> ok w' \<and>
        view w' = (view w)\<lparr>v_pending := take k (v_pending (view w)) @ (p, u) # drop k (v_pending (view w))\<rparr> \<and>
        (\<forall>x \<in> set (take k (v_pending (view w))). sint p \<le> sint (fst x)) \<and>
        (\<forall>x \<in> set (drop k (v_pending (view w))). sint (fst x) < sint p) \<and>
        (\<forall>v. v \<noteq> u \<longrightarrow> fresh v w \<longrightarrow> fresh v w') \<and>
        (\<forall>cb t. listening cb w \<longrightarrow> listening cb w' \<and>
           (\<exists>s. last_queue_status None (wd_events wd cb t w') = Some s \<and> w_active_count s = Some (as_i32 (v_active (view w'))) \<and>
              w_pending s = Some (map snd (v_pending (view w')))))"
    and start_refused: "ok w \<Longrightarrow> v_limit (view w) = Some l \<Longrightarrow> l \<le> v_active (view w) \<Longrightarrow>
      wd_stream_start wd a u info p w = (Inr r, w') \<Longrightarrow> wr_status r \<noteq> Some RUNNING"
    and get_cap: "ok w \<Longrightarrow> \<exists>n. wd_get_bandwidth_cap_bps wd a w = (Inr n, w)"
    and events_kept: "ok w \<Longrightarrow> ok (wd_set_events wd cb evs w) \<and> view (wd_set_events wd cb evs w) = view w"
begin

text \<open>The loop that submits the streams, first those that find a slot, then those that have to wait.\<close>

lemma submit_running:
  assumes "ok w" "v_limit (view w) = Some l" "v_active (view w) + length streams \<le> l"
    and "distinct (map snd streams)" "\<forall>u \<in> set (map snd streams) \<union> others. fresh u w" "others \<inter> set (map snd streams) = {}"
    and "listening cb w"
  shows "\<exists>w'. submit_streams wd a i streams w = (Inr (replicate (length streams) \<lparr>wr_status = Some RUNNING, wr_queue_position = None\<rparr>), w') \<and>
    ok w' \<and> view w' = (view w)\<lparr>v_active := v_active (view w) + length streams\<rparr> \<and> (\<forall>u \<in> others. fresh u w') \<and> listening cb w'"
  using assms
proof (induction streams arbitrary: w i)
  case (Cons s streams)
  obtain p u where s: "s = (p, u)" by (cases s)
  let ?info = "\<lparr>w_size_bytes = Some 4096, w_attrs = Some [''label'' \<mapsto> ''mc-stream-'' @ show_nat i]\<rparr>"
  have f: "fresh u w" and lt: "v_active (view w) < l" using Cons.prems s by auto
  obtain w1 where w1: "wd_stream_start wd a u ?info p w = (Inr \<lparr>wr_status = Some RUNNING, wr_queue_position = None\<rparr>, w1)" "ok w1"
    "view w1 = (view w)\<lparr>v_active := Suc (v_active (view w))\<rparr>" "\<forall>v. v \<noteq> u \<longrightarrow> fresh v w \<longrightarrow> fresh v w1" "listening cb w1"
    using start_runs [OF Cons.prems(1) f Cons.prems(2) lt, of ?info p] Cons.prems(7) by blast
  have "v \<noteq> u" if "v \<in> set (map snd streams) \<union> others" for v using that Cons.prems(4,6) s by auto
  then have fr: "\<forall>v \<in> set (map snd streams) \<union> others. fresh v w1" using w1(4) Cons.prems(5) by auto
  have "\<exists>w'. submit_streams wd a (Suc i) streams w1 =
      (Inr (replicate (length streams) \<lparr>wr_status = Some RUNNING, wr_queue_position = None\<rparr>), w') \<and>
      ok w' \<and> view w' = (view w1)\<lparr>v_active := v_active (view w1) + length streams\<rparr> \<and> (\<forall>u \<in> others. fresh u w') \<and> listening cb w'"
    by (rule Cons.IH) (use Cons.prems w1 fr in auto)
  then show ?case using w1 s by (auto simp: io_bind_def)
qed auto

lemma submit_waiting:
  assumes "ok w" "v_limit (view w) = Some l" "l \<le> v_active (view w)"
    and "length (v_pending (view w)) + length streams \<le> v_room (view w)" "v_room (view w) < 2 ^ 31"
    and "distinct (map snd streams)" "\<forall>u \<in> set (map snd streams). fresh u w" "listening cb w"
    and "v_pending (view w) = sort_key (\<lambda>e. - sint (fst e)) queued" "streams \<noteq> []"
  shows "\<exists>w' results. submit_streams wd a i streams w = (Inr results, w') \<and> length results = length streams \<and>
    (\<forall>r \<in> set results. wr_status r = Some PENDING \<and> (\<exists>pos \<ge> 1. wr_queue_position r = Some pos)) \<and>
    ok w' \<and> v_active (view w') = v_active (view w) \<and>
    v_pending (view w') = sort_key (\<lambda>e. - sint (fst e)) (queued @ streams) \<and>
    (\<exists>s. last_queue_status None (wd_events wd cb t w') = Some s \<and> w_active_count s = Some (as_i32 (v_active (view w'))) \<and>
       w_pending s = Some (map snd (v_pending (view w'))))"
  using assms
proof (induction streams arbitrary: w i queued)
  case (Cons s streams)
  obtain p u where s: "s = (p, u)" by (cases s)
  have room: "length (v_pending (view w)) < v_room (view w)" using Cons.prems by simp
  let ?info = "\<lparr>w_size_bytes = Some 4096, w_attrs = Some [''label'' \<mapsto> ''mc-stream-'' @ show_nat i]\<rparr>"
  have f: "fresh u w" using Cons.prems(7) s by simp
  obtain w1 pos k where w1: "wd_stream_start wd a u ?info p w = (Inr \<lparr>wr_status = Some PENDING, wr_queue_position = Some pos\<rparr>, w1)" "1 \<le> pos" "ok w1"
    "view w1 = (view w)\<lparr>v_pending := take k (v_pending (view w)) @ (p, u) # drop k (v_pending (view w))\<rparr>"
    "\<forall>x \<in> set (take k (v_pending (view w))). sint p \<le> sint (fst x)" "\<forall>x \<in> set (drop k (v_pending (view w))). sint (fst x) < sint p"
    "\<forall>v. v \<noteq> u \<longrightarrow> fresh v w \<longrightarrow> fresh v w1" "listening cb w1"
    "\<exists>s. last_queue_status None (wd_events wd cb t w1) = Some s \<and> w_active_count s = Some (as_i32 (v_active (view w1))) \<and>
       w_pending s = Some (map snd (v_pending (view w1)))"
    using start_waits [OF Cons.prems(1) f Cons.prems(2,3) room Cons.prems(5), of ?info p] Cons.prems(8) by blast
  have sorted: "v_pending (view w1) = sort_key (\<lambda>e. - sint (fst e)) (queued @ [s])"
    using insert_stable [OF w1(5,6) Cons.prems(9), of u] w1(4) s by simp
  have act: "v_active (view w1) = v_active (view w)" "v_limit (view w1) = v_limit (view w)" "v_room (view w1) = v_room (view w)"
    "length (v_pending (view w1)) = Suc (length (v_pending (view w)))"
    using w1(4) sorted Cons.prems(9) by (simp_all add: s)
  have "v \<noteq> u" if "v \<in> set (map snd streams)" for v using that Cons.prems(6) s by auto
  then have fr: "\<forall>v \<in> set (map snd streams). fresh v w1" using w1(7) Cons.prems(7) by auto
  show ?case
  proof (cases "streams = []")
    case True
    then show ?thesis using w1(1-3,9) act sorted s by (auto simp: io_bind_def)
  next
    case False
    have "\<exists>w' results. submit_streams wd a (Suc i) streams w1 = (Inr results, w') \<and> length results = length streams \<and>
      (\<forall>r \<in> set results. wr_status r = Some PENDING \<and> (\<exists>pos \<ge> 1. wr_queue_position r = Some pos)) \<and>
      ok w' \<and> v_active (view w') = v_active (view w1) \<and>
      v_pending (view w') = sort_key (\<lambda>e. - sint (fst e)) ((queued @ [s]) @ streams) \<and>
      (\<exists>s. last_queue_status None (wd_events wd cb t w') = Some s \<and> w_active_count s = Some (as_i32 (v_active (view w'))) \<and>
         w_pending s = Some (map snd (v_pending (view w'))))"
      by (rule Cons.IH) (use Cons.prems(2-6) w1(3,8) act fr sorted False in auto)
    then show ?thesis using w1(1,2) act(1) s by (auto simp: io_bind_def)
  qed
qed simp

text \<open>The max-concurrent test passes on an idle agent, and leaves its streams behind.\<close>

lemma max_concurrent_passes:
  assumes "ok w" "v_active (view w) = 0" "v_pending (view w) = []" "tc_sender_c2i ctx = a"
    and "0 < mc" "mc < sc" "mc < 2 ^ 31" "sc - mc \<le> v_room (view w)" "v_room (view w) < 2 ^ 31"
    and "length uuids = sc" "distinct uuids" "\<forall>u \<in> set uuids. fresh u w"
  shows "\<exists>w'. cmd_max_concurrent wd ctx mc sc uuids w = (Inr (), w') \<and> ok w' \<and> mc \<le> v_active (view w')"
proof -
  define streams where "streams = zip (submission_priorities sc) uuids"
  define run where "run = take mc streams"
  define wait where "wait = drop mc streams"
  have len: "length streams = sc" using length_submission_priorities [of sc] assms(6,10) by (simp add: streams_def)
  have ids: "map snd streams = uuids" using length_submission_priorities [of sc] assms(6,10) by (simp add: streams_def)
  have split: "streams = run @ wait" "length run = mc" "length wait = sc - mc" "wait \<noteq> []"
    using len assms(6) by (auto simp: run_def wait_def)
  have d: "distinct (map snd run)" "distinct (map snd wait)" "set (map snd run) \<inter> set (map snd wait) = {}"
    "set uuids = set (map snd run) \<union> set (map snd wait)"
    using assms(11) unfolding ids [symmetric] split(1) by auto
  have i32: "as_i32 mc = int mc" using assms(7) by simp
  obtain w1 where w1: "wd_set_max_concurrent wd a (int mc) w = (Inr (), w1)" "ok w1" "v_limit (view w1) = Some mc"
    "v_room (view w1) = v_room (view w)" "v_active (view w1) = 0" "v_pending (view w1) = []" "\<forall>u \<in> set uuids. fresh u w1"
    using set_limit [OF assms(1), of "int mc"] assms(2,3,5,7,12) by auto
  obtain cb w2 where w2: "wd_bind_callback wd w1 = (Inr cb, w2)" "ok w2" "view w2 = view w1" "\<forall>u \<in> set uuids. fresh u w2"
    using bind_cb [OF w1(2)] w1(7) by blast
  obtain w3 where w3: "wd_set_callback wd a cb w2 = (Inr [], w3)" "ok w3" "view w3 = view w1" "\<forall>u \<in> set uuids. fresh u w3" "listening cb w3"
    using set_cb [OF w2(2), of cb] w2(3,4) by auto
  have a1: "v_limit (view w3) = Some mc" "v_active (view w3) + length run \<le> mc" using w3(3) w1(3,5) split(2) by simp_all
  have a2: "\<forall>u \<in> set (map snd run) \<union> set (map snd wait). fresh u w3" using w3(4) d(4) by blast
  have a3: "set (map snd wait) \<inter> set (map snd run) = {}" using d(3) by blast
  note submit_running [OF w3(2) a1 d(1) a2 a3 w3(5), of 0]
  then obtain w4 where w4: "submit_streams wd a 0 run w3 = (Inr (replicate mc \<lparr>wr_status = Some RUNNING, wr_queue_position = None\<rparr>), w4)"
    "ok w4" "view w4 = (view w1)\<lparr>v_active := mc\<rparr>" "\<forall>u \<in> set (map snd wait). fresh u w4" "listening cb w4"
    unfolding w3(3) w1(5) split(2) by auto
  have b1: "v_limit (view w4) = Some mc" "mc \<le> v_active (view w4)" "length (v_pending (view w4)) + length wait \<le> v_room (view w4)"
    "v_room (view w4) < 2 ^ 31" "v_pending (view w4) = sort_key (\<lambda>e. - sint (fst e)) []"
    using w4(3) w1(3,4,6) split(3) assms(8,9) by simp_all
  note submit_waiting [OF w4(2) b1(1-4) d(2) w4(4,5) b1(5) split(4), of mc 200]
  then obtain w5 results s where w5: "submit_streams wd a mc wait w4 = (Inr results, w5)" "length results = length wait"
    "\<forall>r \<in> set results. wr_status r = Some PENDING \<and> (\<exists>pos \<ge> 1. wr_queue_position r = Some pos)" "ok w5"
    "v_active (view w5) = v_active (view w4)" "v_pending (view w5) = sort_key (\<lambda>e. - sint (fst e)) ([] @ wait)"
    "last_queue_status None (wd_events wd cb 200 w5) = Some s" "w_active_count s = Some (as_i32 (v_active (view w5)))"
    "w_pending s = Some (map snd (v_pending (view w5)))" by blast
  have act: "v_active (view w5) = mc" using w5(5) w4(3) by simp
  have pend: "w_pending s = Some (expected_pending mc streams)" using w5(6,9) by (simp add: expected_pending_def wait_def)
  have cntw: "length results = sc - mc" using w5(2) split(3) by simp
  have sub: "submit_streams wd a 0 streams w3 = (Inr (replicate mc \<lparr>wr_status = Some RUNNING, wr_queue_position = None\<rparr> @ results), w5)"
    unfolding split(1) submit_append io_bind_def w4(1) split(2) using w5(1) by simp
  have cnt: "count_results (replicate mc \<lparr>wr_status = Some RUNNING, wr_queue_position = None\<rparr> @ results) 0 0 = Inr (mc, sc - mc)"
    using count_running [of mc results 0 0] count_pending [OF w5(3), of mc 0] cntw by simp
  define w6 where "w6 = wd_set_events wd cb [] w5"
  have w6: "ok w6" "v_active (view w6) = mc" using events_kept [OF w5(4)] act by (simp_all add: w6_def)
  obtain w7 where w7: "wd_set_max_concurrent wd a 0 w6 = (Inr (), w7)" "ok w7" "mc \<le> v_active (view w7)"
    using set_limit [OF w6(1), of 0] w6(2) by auto
  have recv: "io_receive wd cb 200 (\<lambda>evs. (Inr (last_queue_status None evs), [])) w5 = (Inr (Some s), w6)"
    using w5(7) by (simp add: io_receive_def w6_def)
  have "cmd_max_concurrent wd ctx mc sc uuids w = (Inr (), w7)"
    unfolding cmd_max_concurrent_def Let_def streams_def [symmetric] assms(4)
    using reachable [OF assms(1)] assms(6) w1(1) w2(1) w3(1) sub cnt recv w5(8) [unfolded act] pend w7(1)
    by (simp add: io_bind_def ensure_agent_running_def i32 del: submit_streams.simps count_results.simps)
  then show ?thesis using w7 by blast
qed

text \<open>On an agent with a stream left over, the drr test cannot start its anchor.\<close>

lemma drr_blocked:
  assumes "ok w" "0 < v_active (view w)" "tc_sender_c2i ctx = a"
  shows "\<exists>e w'. cmd_drr wd digest gen ctx file_count anchor_uuid uuids w = (Inl e, w')"
proof (rule ccontr)
  assume "\<not> (\<exists>e w'. cmd_drr wd digest gen ctx file_count anchor_uuid uuids w = (Inl e, w'))"
  then obtain w' where run: "cmd_drr wd digest gen ctx file_count anchor_uuid uuids w = (Inr (), w')"
    by (metis (full_types) old.sum.exhaust old.unit.exhaust surj_pair)
  obtain n where cap: "wd_get_bandwidth_cap_bps wd a w = (Inr n, w)" using get_cap [OF assms(1)] by blast
  obtain w1 where w1: "wd_set_max_concurrent wd a 1 w = (Inr (), w1)" "ok w1" "v_limit (view w1) = Some 1" "1 \<le> v_active (view w1)"
    using set_limit [OF assms(1), of 1] assms(2) by auto
  obtain cb1 w2 where w2: "wd_bind_callback wd w1 = (Inr cb1, w2)" "ok w2" "view w2 = view w1" using bind_cb [OF w1(2)] by blast
  obtain cb2 w3 where w3: "wd_bind_callback wd w2 = (Inr cb2, w3)" "ok w3" "view w3 = view w1" using bind_cb [OF w2(2)] w2(3) by auto
  have reg: "ok w5 \<and> view w5 = view w1" if "register_callbacks wd ctx cb1 cb2 w3 = (Inr x, w5)" for x w5
    using that unfolding register_callbacks_def
    by (elim io_bind_ok) (auto simp: ensure_def io_return_def io_fail_def dest!: set_cb_other [rotated] split: if_splits intro: w3)
  have no_anchor: False if "register_callbacks wd ctx cb1 cb2 w3 = (Inr x, w5)" "wd_stream_start wd a u info p w5 = (Inr r, w6)"
    "ensure (wr_status r = Some RUNNING) e w6 = (Inr y, w7)" for x w5 u info p r w6 e y w7
    using reg [OF that(1)] start_refused [OF _ _ _ that(2), of 1] w1(3,4) that(3) by (auto simp: ensure_def io_return_def io_fail_def split: if_splits)
  have "io_bind (ensure_agent_running wd a) f w = f () w" for f :: "unit \<Rightarrow> ('w, unit) io"
    by (rule io_bind_return) (simp add: ensure_agent_running_def reachable [OF assms(1)])
  moreover have "io_bind (query_cap wd a) f w = f (if n \<le> 0 then None else Some (as_u64 n)) w" for f :: "nat option \<Rightarrow> ('w, unit) io"
    by (rule io_bind_return) (simp add: query_cap_def io_bind_def cap)
  ultimately show False using run
    unfolding cmd_drr_def Let_def assms(3)
    by (simp only: io_bind_return [where m = "wd_set_max_concurrent wd a 1" and w = w, OF w1(1)] io_bind_return [where m = "wd_bind_callback wd" and w = w1, OF w2(1)] io_bind_return [where m = "wd_bind_callback wd" and w = w2, OF w3(1)])
       (erule io_bind_ok, erule io_bind_ok, erule io_bind_ok, rule no_anchor, assumption+)
qed

end

section \<open>The modelled agent as the world of the tests\<close>

text \<open>One agent, at address 0, with nobody else calling it: each call of the test is followed by the turns of the agent
  loop and the session manager it causes, and the callbacks that result are delivered. The client of the
  callback agent is a callback server of the test; it is known by its number.\<close>

record agent_world =
  aw_control :: control
  aw_cb :: "(nat \<times> test_callback_handler) callback_agent"
  aw_next :: nat

definition aw_connect :: "string \<Rightarrow> (nat \<times> test_callback_handler) option" where
  "aw_connect endpoint = Some (decimal_value endpoint, test_handler_new)"

definition aw_call :: "(uuid \<Rightarrow> string) \<Rightarrow> nat \<times> test_callback_handler \<Rightarrow> wire_call \<Rightarrow> bool \<times> (nat \<times> test_callback_handler)" where
  "aw_call to_string c call = (True, (fst c, test_handle to_string call (snd c)))"

definition aw_settle :: "(string \<Rightarrow> uuid option) \<Rightarrow> (uuid \<Rightarrow> string) \<Rightarrow> (nat \<Rightarrow> conn_stats) \<Rightarrow> (uuid \<Rightarrow> open_result) \<Rightarrow> control \<Rightarrow>
    agent_world \<Rightarrow> agent_world" where
  "aw_settle parse_str to_string stats env c w =
     (let c1 = manager_turn parse_str stats env (agent_turn c);
          cmds = ct_cb_q c1 @ drop (length (sm_callbacks (ct_sm c))) (sm_callbacks (ct_sm c1))
      in w\<lparr>aw_control := c1\<lparr>ct_cb_q := []\<rparr>,
           aw_cb := callback_run to_string aw_connect (aw_call to_string) cmds (aw_cb w)\<rparr>)"

fun thrift_text :: "thrift_error \<Rightarrow> string" where
  "thrift_text (InternalError e) = e"
| "thrift_text (InvalidTransform e) = e"

definition aw_rpc :: "(string \<Rightarrow> uuid option) \<Rightarrow> (uuid \<Rightarrow> string) \<Rightarrow> (nat \<Rightarrow> conn_stats) \<Rightarrow> (uuid \<Rightarrow> open_result) \<Rightarrow>
    (control \<Rightarrow> (thrift_error + 'a) \<times> control) \<Rightarrow> (session_reply \<Rightarrow> thrift_error + 'b) \<Rightarrow> (agent_world, 'b) io" where
  "aw_rpc parse_str to_string stats env handler return w =
     (case handler (aw_control w) of
        (Inl e, c) \<Rightarrow> (Inl (thrift_text e), w\<lparr>aw_control := c\<rparr>)
      | (Inr _, c) \<Rightarrow>
          let w' = aw_settle parse_str to_string stats env c w
          in case return (last (NoReply # ct_replies (aw_control w'))) of
               Inl e \<Rightarrow> (Inl (thrift_text e), w')
             | Inr x \<Rightarrow> (Inr x, w'))"

definition at_agent :: "addr \<Rightarrow> (agent_world, 'a) io \<Rightarrow> (agent_world, 'a) io" where
  "at_agent a m = (if a = 0 then m else io_fail ''Agent not reachable'')"

definition aw_events :: "nat \<Rightarrow> agent_world \<Rightarrow> test_callback_event list" where
  "aw_events cb w = (case ca_client (aw_cb w) of Some (s, h) \<Rightarrow> if s = cb then th_events h else [] | None \<Rightarrow> [])"

definition aw_set_events :: "nat \<Rightarrow> test_callback_event list \<Rightarrow> agent_world \<Rightarrow> agent_world" where
  "aw_set_events cb evs w =
     (case ca_client (aw_cb w) of
        Some (s, h) \<Rightarrow> if s = cb then w\<lparr>aw_cb := (aw_cb w)\<lparr>ca_client := Some (s, h\<lparr>th_events := evs\<rparr>)\<rparr>\<rparr> else w
      | None \<Rightarrow> w)"

text \<open>The data path is not part of this world: a test that reads or writes a port fails.\<close>

definition agent_ops :: "(string \<Rightarrow> uuid option) \<Rightarrow> (uuid \<Rightarrow> string) \<Rightarrow> (nat \<Rightarrow> conn_stats) \<Rightarrow> (uuid \<Rightarrow> open_result) \<Rightarrow> agent_world world" where
  "agent_ops parse_str to_string stats env = \<lparr>
     wd_resolve = (\<lambda>host. Inr [0]),
     wd_reachable = (\<lambda>a w. a = 0),
     wd_bind_callback = (\<lambda>w. (Inr (aw_next w), w\<lparr>aw_next := Suc (aw_next w)\<rparr>)),
     wd_set_callback = (\<lambda>a cb. if a = 0 then aw_rpc parse_str to_string stats env (handle_set_callback (show_nat cb)) (\<lambda>_. Inr [])
        else io_return []),
     wd_stream_start = (\<lambda>a uuid info p. at_agent a (aw_rpc parse_str to_string stats env
        (handle_stream_start parse_str uuid info p) (\<lambda>reply. stream_start_return (Some reply)))),
     wd_set_max_concurrent = (\<lambda>a n. at_agent a (aw_rpc parse_str to_string stats env (handle_set_max_concurrent n) (\<lambda>_. Inr ()))),
     wd_set_chunk_size_bytes = (\<lambda>a n. at_agent a (aw_rpc parse_str to_string stats env (handle_set_chunk_size_bytes n) (\<lambda>_. Inr ()))),
     wd_get_bandwidth_cap_bps = (\<lambda>a. at_agent a (\<lambda>w. (case handle_get_bandwidth_cap_bps (aw_control w) of
        Inl e \<Rightarrow> (Inl (thrift_text e), w) | Inr n \<Rightarrow> (Inr n, w)))),
     wd_get_conn_stats = (\<lambda>a. at_agent a (aw_rpc parse_str to_string stats env handle_get_conn_stats (\<lambda>reply. conn_stats_return (Some reply)))),
     wd_events = (\<lambda>cb t w. aw_events cb w),
     wd_set_events = aw_set_events,
     wd_progress_count = (\<lambda>cb w. case ca_client (aw_cb w) of Some (s, h) \<Rightarrow> th_progress_count h | None \<Rightarrow> 0),
     wd_spawn_writer = (\<lambda>a port acts w. w),
     wd_join_writer = io_fail ''no data path'',
     wd_read = (\<lambda>a port t. io_fail ''no data path''),
     wd_elapsed = (\<lambda>w. (0, 0))\<rparr>"

section \<open>Its view\<close>

definition aw_remote :: "agent_world \<Rightarrow> remote_state option" where
  "aw_remote w = sm_remote (ct_sm (aw_control w))"

definition aw_ok :: "agent_world \<Rightarrow> bool" where
  "aw_ok w \<longleftrightarrow> serving (aw_control w) \<and> ct_cb_open (aw_control w) \<and> ct_agent_q (aw_control w) = [] \<and> ct_sm_q (aw_control w) = [] \<and>
     ct_cb_q (aw_control w) = [] \<and>
     (case aw_remote w of None \<Rightarrow> False | Some r \<Rightarrow> wf_remote r \<and> rs_session r \<noteq> None)"

definition aw_view :: "(uuid \<Rightarrow> string) \<Rightarrow> agent_world \<Rightarrow> view" where
  "aw_view to_string w =
     (case aw_remote w of
        None \<Rightarrow> \<lparr>v_limit = None, v_active = 0, v_pending = [], v_room = 0\<rparr>
      | Some r \<Rightarrow> \<lparr>v_limit = rs_max_concurrent r, v_active = length (rs_active r),
          v_pending = map (\<lambda>p. (as_i8 (ps_priority p), to_string (ps_uuid p))) (rs_pending r), v_room = rs_max_pending r\<rparr>)"

definition aw_fresh :: "(string \<Rightarrow> uuid option) \<Rightarrow> (uuid \<Rightarrow> string) \<Rightarrow> string \<Rightarrow> agent_world \<Rightarrow> bool" where
  "aw_fresh parse_str to_string s w \<longleftrightarrow>
     (case aw_remote w of
        None \<Rightarrow> False
      | Some r \<Rightarrow> (case parse_str s of None \<Rightarrow> False
          | Some u \<Rightarrow> to_string u = s \<and> u \<notin> set (active_ids r) \<and> u \<notin> set (pending_ids r)))"

definition aw_listening :: "nat \<Rightarrow> agent_world \<Rightarrow> bool" where
  "aw_listening cb w \<longleftrightarrow> (case ca_client (aw_cb w) of Some (s, h) \<Rightarrow> s = cb | None \<Rightarrow> False)"

section \<open>Lemmas\<close>

text \<open>A command that is alone in the agent's channel is dispatched by the two turns.\<close>

lemma settle_command:
  assumes "ct_agent_q c = [cmd]" "ct_sm_q c = []" "dispatch_cmd parse_str stats env (agent_forward cmd) (ct_sm c) = (reply, m)"
  shows "aw_settle parse_str to_string stats env c w =
    w\<lparr>aw_control := c\<lparr>ct_agent_q := [], ct_sm := m, ct_dispatched := ct_dispatched c @ [agent_forward cmd],
        ct_replies := ct_replies c @ [reply], ct_cb_q := []\<rparr>,
      aw_cb := callback_run to_string aw_connect (aw_call to_string)
        (ct_cb_q c @ drop (length (sm_callbacks (ct_sm c))) (sm_callbacks m)) (aw_cb w)\<rparr>"
  using assms by (simp add: aw_settle_def agent_turn_def manager_turn_def Let_def)

lemma settle_idle:
  assumes "ct_agent_q c = []" "ct_sm_q c = []"
  shows "aw_settle parse_str to_string stats env c w =
    w\<lparr>aw_control := c\<lparr>ct_cb_q := []\<rparr>, aw_cb := callback_run to_string aw_connect (aw_call to_string) (ct_cb_q c) (aw_cb w)\<rparr>"
  using assms by (simp add: aw_settle_def agent_turn_def manager_turn_def Let_def)

text \<open>Notifications keep the connection and reach the server in order.\<close>

lemma callback_run_events:
  assumes "ca_client a = Some (s, h)" "\<forall>c \<in> set cmds. \<not> is_register c"
  shows "\<exists>h'. ca_client (callback_run to_string aw_connect (aw_call to_string) cmds a) = Some (s, h')"
  using assms
proof (induction cmds arbitrary: a h)
  case (Cons c cmds)
  have "\<exists>h'. ca_client (callback_step to_string aw_connect (aw_call to_string) c a) = Some (s, h')"
    using Cons.prems by (cases c) (auto simp: fire_def aw_call_def is_register_def)
  then obtain h' where "ca_client (callback_step to_string aw_connect (aw_call to_string) c a) = Some (s, h')" by blast
  from Cons.IH [OF this] Cons.prems(2) show ?case by (simp add: callback_run_def)
qed (simp add: callback_run_def)

lemma last_queue_status_snoc: "last_queue_status seen (evs @ [QueueStatusEvent s]) = Some s"
  by (induction evs arbitrary: seen) auto

lemma on_start_runs:
  assumes "sm_remote m = Some r" "has_active_slot r" "rs_session r \<noteq> None"
  shows "\<exists>h a cb. on_stream_start (Opened port) p m = (\<lparr>sr_status = RUNNING, sr_queue_position = None\<rparr>,
    m\<lparr>sm_arl := a, sm_callbacks := sm_callbacks m @ [cb, QueueStatus (queue_status_of r)],
      sm_remote := Some (r\<lparr>rs_active := map_insert (ps_uuid p) h (rs_active r)\<rparr>)\<rparr>) \<and> \<not> is_register cb"
  using assms by (simp add: on_stream_start_def open_stream_on_session_def is_register_def) (intro exI conjI, rule refl, simp)

lemma on_start_waits:
  assumes "sm_remote m = Some r" "\<not> has_active_slot r" "\<not> pending_queue_full r" "enqueue p r = (pos, r')"
  shows "on_stream_start res p m = (\<lparr>sr_status = PENDING, sr_queue_position = Some (as_i32 pos)\<rparr>,
    m\<lparr>sm_arl := sm_arl m, sm_remote := Some r', sm_callbacks := sm_callbacks m @ [QueueStatus (queue_status_of r')]\<rparr>)"
  using assms by (simp add: on_stream_start_def)

lemma handle_start_sends:
  assumes "ct_agent_open c" "ct_agent_q c = []" "parse_str s = Some u"
  shows "handle_stream_start parse_str s info p c =
    (Inr (), c\<lparr>ct_agent_q := [AgStreamStart u \<lparr>size_bytes = map_option as_u64 (w_size_bytes info), attrs = unwrap_or (w_attrs info) Map.empty\<rparr> (from_i8 p)]\<rparr>)"
  using assms by (simp add: handle_stream_start_def send_cmd_def Let_def)

text \<open>What a call to \<open>stream_start\<close> comes to: the session manager's answer, its new state, and the callbacks delivered.\<close>

lemma start_effect:
  assumes "aw_ok w" "parse_str s = Some u"
    and "on_stream_start (env u) \<lparr>ps_uuid = u,
        ps_info = \<lparr>size_bytes = map_option as_u64 (w_size_bytes info), attrs = unwrap_or (w_attrs info) Map.empty\<rparr>, ps_priority = Priority p\<rparr>
      (ct_sm (aw_control w)) = (resp, m)"
    and "sm_callbacks m = sm_callbacks (ct_sm (aw_control w)) @ cmds"
  shows "\<exists>w'. wd_stream_start (agent_ops parse_str to_string stats env) 0 s info p w =
      (Inr \<lparr>wr_status = Some (sr_status resp), wr_queue_position = sr_queue_position resp\<rparr>, w') \<and>
    ct_sm (aw_control w') = m \<and> aw_cb w' = callback_run to_string aw_connect (aw_call to_string) cmds (aw_cb w) \<and>
    (aw_ok w' \<longleftrightarrow> (case sm_remote m of None \<Rightarrow> False | Some r \<Rightarrow> wf_remote r \<and> rs_session r \<noteq> None))"
proof -
  let ?c = "aw_control w"
  let ?cmd = "AgStreamStart u \<lparr>size_bytes = map_option as_u64 (w_size_bytes info), attrs = unwrap_or (w_attrs info) Map.empty\<rparr> (from_i8 p)"
  have ok: "ct_agent_open ?c" "ct_agent_q ?c = []" "ct_sm_q ?c = []" "ct_cb_q ?c = []" "serving ?c" "ct_cb_open ?c"
    using assms(1) by (auto simp: aw_ok_def serving_def)
  have d: "dispatch_cmd parse_str stats env (agent_forward ?cmd) (ct_sm ?c) = (StartReply resp, m)"
    using assms(3) by (simp add: dispatch_cmd_def from_i8_def)
  define w' where "w' = aw_settle parse_str to_string stats env (?c\<lparr>ct_agent_q := [?cmd]\<rparr>) w"
  have w': "w' = w\<lparr>aw_control := ?c\<lparr>ct_agent_q := [], ct_sm := m, ct_dispatched := ct_dispatched ?c @ [agent_forward ?cmd],
        ct_replies := ct_replies ?c @ [StartReply resp], ct_cb_q := []\<rparr>,
      aw_cb := callback_run to_string aw_connect (aw_call to_string) cmds (aw_cb w)\<rparr>"
    unfolding w'_def using settle_command [of "?c\<lparr>ct_agent_q := [?cmd]\<rparr>" ?cmd parse_str stats env "StartReply resp" m] d ok assms(4) by simp
  have "wd_stream_start (agent_ops parse_str to_string stats env) 0 s info p w =
      (Inr \<lparr>wr_status = Some (sr_status resp), wr_queue_position = sr_queue_position resp\<rparr>, w')"
    using handle_start_sends [of ?c parse_str s u info p] ok assms(2) w'
    by (simp add: agent_ops_def at_agent_def aw_rpc_def Let_def flip: w'_def)
  moreover have "ct_sm (aw_control w') = m" "aw_cb w' = callback_run to_string aw_connect (aw_call to_string) cmds (aw_cb w)"
    "aw_ok w' \<longleftrightarrow> (case sm_remote m of None \<Rightarrow> False | Some r \<Rightarrow> wf_remote r \<and> rs_session r \<noteq> None)"
    using ok unfolding w' by (simp_all add: aw_ok_def serving_def aw_remote_def split: option.split)
  ultimately show ?thesis by blast
qed

lemma aw_ok_remote:
  assumes "aw_ok w"
  obtains r where "aw_remote w = Some r" and "sm_remote (ct_sm (aw_control w)) = Some r" and "wf_remote r" and "rs_session r \<noteq> None"
  using assms by (auto simp: aw_ok_def aw_remote_def split: option.splits)

lemma not_in_pending_length: "u \<notin> set (active_ids r) \<Longrightarrow> length (map_insert u h (rs_active r)) = Suc (length (rs_active r))"
  using arg_cong [OF map_fst_map_insert [of u "rs_active r" h], of length] by (simp add: active_ids_def)

lemma law_start_runs:
  assumes "aw_ok w" "aw_fresh parse_str to_string s w" "v_limit (aw_view to_string w) = Some l" "v_active (aw_view to_string w) < l"
  shows "\<exists>w'. wd_stream_start (agent_ops parse_str to_string stats (\<lambda>u. Opened (port u))) 0 s info p w =
      (Inr \<lparr>wr_status = Some RUNNING, wr_queue_position = None\<rparr>, w') \<and> aw_ok w' \<and>
    aw_view to_string w' = (aw_view to_string w)\<lparr>v_active := Suc (v_active (aw_view to_string w))\<rparr> \<and>
    (\<forall>v. v \<noteq> s \<longrightarrow> aw_fresh parse_str to_string v w \<longrightarrow> aw_fresh parse_str to_string v w') \<and>
    (\<forall>cb. aw_listening cb w \<longrightarrow> aw_listening cb w')"
proof -
  obtain r where r: "aw_remote w = Some r" "sm_remote (ct_sm (aw_control w)) = Some r" "wf_remote r" "rs_session r \<noteq> None"
    by (rule aw_ok_remote [OF assms(1)])
  obtain u where u: "parse_str s = Some u" "to_string u = s" "u \<notin> set (active_ids r)" "u \<notin> set (pending_ids r)"
    using assms(2) r(1) by (auto simp: aw_fresh_def split: option.splits)
  have slot: "has_active_slot r" using assms(3,4) r(1) by (simp add: has_active_slot_def aw_view_def)
  let ?p = "\<lparr>ps_uuid = u, ps_info = \<lparr>size_bytes = map_option as_u64 (w_size_bytes info), attrs = unwrap_or (w_attrs info) Map.empty\<rparr>, ps_priority = Priority p\<rparr>"
  obtain h arl cb where on: "on_stream_start (Opened (port u)) ?p (ct_sm (aw_control w)) = (\<lparr>sr_status = RUNNING, sr_queue_position = None\<rparr>,
      (ct_sm (aw_control w))\<lparr>sm_arl := arl, sm_callbacks := sm_callbacks (ct_sm (aw_control w)) @ [cb, QueueStatus (queue_status_of r)],
        sm_remote := Some (r\<lparr>rs_active := map_insert u h (rs_active r)\<rparr>)\<rparr>)" "\<not> is_register cb"
    using on_start_runs [OF r(2) slot r(4), of "port u" ?p] by auto
  from start_effect [where env = "\<lambda>u. Opened (port u)" and parse_str = parse_str and s = s and info = info and p = p and
      cmds = "[cb, QueueStatus (queue_status_of r)]" and to_string = to_string and stats = stats, OF assms(1) u(1) on(1)]
  obtain w' where w': "wd_stream_start (agent_ops parse_str to_string stats (\<lambda>u. Opened (port u))) 0 s info p w =
      (Inr \<lparr>wr_status = Some RUNNING, wr_queue_position = None\<rparr>, w')"
    "sm_remote (ct_sm (aw_control w')) = Some (r\<lparr>rs_active := map_insert u h (rs_active r)\<rparr>)"
    "aw_cb w' = callback_run to_string aw_connect (aw_call to_string) [cb, QueueStatus (queue_status_of r)] (aw_cb w)"
    and ok: "aw_ok w'"
    using wf_activate [OF r(3) u(4), of h] r(4) by auto
  have view: "aw_view to_string w' = (aw_view to_string w)\<lparr>v_active := Suc (v_active (aw_view to_string w))\<rparr>"
    using w'(2) r(1) not_in_pending_length [OF u(3), of h] by (simp add: aw_view_def aw_remote_def)
  have fresh: "aw_fresh parse_str to_string v w'" if "v \<noteq> s" "aw_fresh parse_str to_string v w" for v
    using that w'(2) r(1) u(1,2) by (auto simp: aw_fresh_def aw_remote_def active_ids_def pending_ids_def fst_map_insert_image split: option.splits)
  have listen: "aw_listening cb' w'" if "aw_listening cb' w" for cb'
    using that callback_run_events [of "aw_cb w" cb' _ "[cb, QueueStatus (queue_status_of r)]" to_string] on(2) w'(3)
    by (auto simp: aw_listening_def is_register_def split: option.splits)
  from w'(1) ok view fresh listen show ?thesis by blast
qed

lemma law_start_waits:
  assumes "aw_ok w" "aw_fresh parse_str to_string s w" "v_limit (aw_view to_string w) = Some l" "l \<le> v_active (aw_view to_string w)"
    and "length (v_pending (aw_view to_string w)) < v_room (aw_view to_string w)" "v_room (aw_view to_string w) < 2 ^ 31"
  shows "\<exists>w' pos k. wd_stream_start (agent_ops parse_str to_string stats (\<lambda>u. Opened (port u))) 0 s info p w =
      (Inr \<lparr>wr_status = Some PENDING, wr_queue_position = Some pos\<rparr>, w') \<and> 1 \<le> pos \<and> aw_ok w' \<and>
    aw_view to_string w' = (aw_view to_string w)\<lparr>v_pending :=
      take k (v_pending (aw_view to_string w)) @ (p, s) # drop k (v_pending (aw_view to_string w))\<rparr> \<and>
    (\<forall>x \<in> set (take k (v_pending (aw_view to_string w))). sint p \<le> sint (fst x)) \<and>
    (\<forall>x \<in> set (drop k (v_pending (aw_view to_string w))). sint (fst x) < sint p) \<and>
    (\<forall>v. v \<noteq> s \<longrightarrow> aw_fresh parse_str to_string v w \<longrightarrow> aw_fresh parse_str to_string v w') \<and>
    (\<forall>cb t. aw_listening cb w \<longrightarrow> aw_listening cb w' \<and>
       (\<exists>qs. last_queue_status None (wd_events (agent_ops parse_str to_string stats (\<lambda>u. Opened (port u))) cb t w') = Some qs \<and>
          w_active_count qs = Some (as_i32 (v_active (aw_view to_string w'))) \<and>
          w_pending qs = Some (map snd (v_pending (aw_view to_string w')))))"
proof -
  obtain r where r: "aw_remote w = Some r" "sm_remote (ct_sm (aw_control w)) = Some r" "wf_remote r" "rs_session r \<noteq> None"
    by (rule aw_ok_remote [OF assms(1)])
  obtain u where u: "parse_str s = Some u" "to_string u = s" "u \<notin> set (active_ids r)" "u \<notin> set (pending_ids r)"
    using assms(2) r(1) by (auto simp: aw_fresh_def split: option.splits)
  have full: "\<not> has_active_slot r" "\<not> pending_queue_full r" using assms(3-5) r(1) by (simp_all add: has_active_slot_def pending_queue_full_def aw_view_def)
  let ?p = "\<lparr>ps_uuid = u, ps_info = \<lparr>size_bytes = map_option as_u64 (w_size_bytes info), attrs = unwrap_or (w_attrs info) Map.empty\<rparr>, ps_priority = Priority p\<rparr>"
  obtain pos r' where e: "enqueue ?p r = (pos, r')" by (metis prod.exhaust)
  have "pend.descending (rs_pending r)" using r(3) by (simp add: wf_remote_def)
  from enqueue_split [OF this e] obtain k where k: "k \<le> length (rs_pending r)" "pos = Suc k"
    "r' = r\<lparr>rs_pending := take k (rs_pending r) @ ?p # drop k (rs_pending r)\<rparr>"
    "\<forall>x \<in> set (take k (rs_pending r)). ps_priority ?p \<le> ps_priority x" "\<forall>x \<in> set (drop k (rs_pending r)). ps_priority x < ps_priority ?p" by blast
  have wf: "wf_remote r'" using wf_enqueue [OF r(3) _ full(2) e] u(3,4) by (simp add: fresh_stream_def)
  have session: "rs_session r' \<noteq> None" using r(4) k(3) by simp
  note on = on_start_waits [OF r(2) full e, of "Opened (port u)"]
  from start_effect [where env = "\<lambda>u. Opened (port u)" and parse_str = parse_str and s = s and info = info and p = p and
      cmds = "[QueueStatus (queue_status_of r')]" and to_string = to_string and stats = stats, OF assms(1) u(1) on]
  obtain w' where w': "wd_stream_start (agent_ops parse_str to_string stats (\<lambda>u. Opened (port u))) 0 s info p w =
      (Inr \<lparr>wr_status = Some PENDING, wr_queue_position = Some (as_i32 pos)\<rparr>, w')"
    "sm_remote (ct_sm (aw_control w')) = Some r'"
    "aw_cb w' = callback_run to_string aw_connect (aw_call to_string) [QueueStatus (queue_status_of r')] (aw_cb w)"
    and ok: "aw_ok w'" using wf session by auto
  have pos: "1 \<le> as_i32 pos" using k(1,2) assms(5,6) r(1) by (simp add: aw_view_def)
  have view: "aw_view to_string w' = (aw_view to_string w)\<lparr>v_pending :=
      take k (v_pending (aw_view to_string w)) @ (p, s) # drop k (v_pending (aw_view to_string w))\<rparr>"
    using w'(2) r(1) k(3) u(2) by (simp add: aw_view_def aw_remote_def take_map drop_map)
  have le: "\<forall>x \<in> set (take k (v_pending (aw_view to_string w))). sint p \<le> sint (fst x)"
    "\<forall>x \<in> set (drop k (v_pending (aw_view to_string w))). sint (fst x) < sint p"
    using k(4,5) r(1) by (auto simp: aw_view_def take_map drop_map less_eq_priority_def less_priority_def)
  have fresh: "aw_fresh parse_str to_string v w'" if "v \<noteq> s" "aw_fresh parse_str to_string v w" for v
  proof -
    have "set (pending_ids r') = insert u (set (pending_ids r))"
      unfolding k(3) pending_ids_def using set_append [of "take k (rs_pending r)" "drop k (rs_pending r)"] by auto
    then show ?thesis using that w'(2) r(1) u(1,2) k(3) by (auto simp: aw_fresh_def aw_remote_def active_ids_def split: option.splits)
  qed
  have events: "aw_listening cb w' \<and> last_queue_status None (aw_events cb w') = Some (queue_status_to_wire to_string (queue_status_of r'))"
    if l: "aw_listening cb w" for cb
  proof -
    obtain h where h: "ca_client (aw_cb w) = Some (cb, h)" using l by (auto simp: aw_listening_def split: option.splits)
    then have "ca_client (aw_cb w') = Some (cb, send_event (QueueStatusEvent (queue_status_to_wire to_string (queue_status_of r'))) h)"
      unfolding w'(3) by (simp add: callback_run_def fire_def aw_call_def)
    then show ?thesis by (simp add: aw_listening_def aw_events_def send_event_def last_queue_status_snoc)
  qed
  have status: "w_active_count (queue_status_to_wire to_string (queue_status_of r')) = Some (as_i32 (v_active (aw_view to_string w')))"
    "w_pending (queue_status_to_wire to_string (queue_status_of r')) = Some (map snd (v_pending (aw_view to_string w')))"
    using w'(2) by (simp_all add: queue_status_to_wire_def queue_status_of_def aw_view_def aw_remote_def)
  have ev: "wd_events (agent_ops parse_str to_string stats (\<lambda>u. Opened (port u))) cb t w' = aw_events cb w'" for cb t by (simp add: agent_ops_def)
  have seen: "aw_listening cb w \<Longrightarrow> \<exists>qs. last_queue_status None
      (wd_events (agent_ops parse_str to_string stats (\<lambda>u. Opened (port u))) cb t w') = Some qs \<and>
      w_active_count qs = Some (as_i32 (v_active (aw_view to_string w'))) \<and>
      w_pending qs = Some (map snd (v_pending (aw_view to_string w')))" for cb t
    unfolding ev using events [of cb] status by (intro exI conjI) auto
  show ?thesis
    by (rule exI [of _ w'], rule exI [of _ "as_i32 pos"], rule exI [of _ k], intro conjI allI impI)
       (rule w'(1) pos ok view le | rule seen, assumption | blast intro: fresh | use events in blast)+
qed

lemma wf_promote:
  assumes "wf_remote r" and "promote_pending env r a = (r', a', cbs)"
  shows "wf_remote r' \<and> length (rs_active r) \<le> length (rs_active r') \<and> (rs_pending r = [] \<longrightarrow> r' = r) \<and>
    set (active_ids r') \<union> set (pending_ids r') = set (active_ids r) \<union> set (pending_ids r) \<and> rs_session r' = rs_session r \<and>
    rs_max_concurrent r' = rs_max_concurrent r \<and> rs_max_pending r' = rs_max_pending r \<and> (\<forall>c \<in> set cbs. \<not> is_register c)"
proof -
  have cbs: "\<forall>c \<in> set cbs. \<not> is_register c"
    using assms(2) by (auto simp: promote_pending_def open_stream_on_session_def is_register_def split: list.splits if_splits prod.splits option.splits open_result.splits)
  have "r' = r \<or> (\<exists>p ps h. rs_pending r = p # ps \<and> r' = r\<lparr>rs_active := map_insert (ps_uuid p) h (rs_active r), rs_pending := ps\<rparr>)"
    using assms(2) by (auto simp: promote_pending_def split: list.splits if_splits prod.splits option.splits)
  then show ?thesis
  proof (elim disjE exE conjE)
    fix p ps h
    assume p: "rs_pending r = p # ps" and r': "r' = r\<lparr>rs_active := map_insert (ps_uuid p) h (rs_active r), rs_pending := ps\<rparr>"
    have "wf_remote r'" unfolding r' using p assms(1)
      by (intro wf_remote_subqueue) (auto simp: wf_remote_def pending_ids_def active_ids_def distinct_map_insert fst_map_insert_image)
    moreover have "ps_uuid p \<notin> set (active_ids r)" using assms(1) p by (auto simp: wf_remote_def pending_ids_def)
    then have "length (rs_active r') = Suc (length (rs_active r))" unfolding r' by (simp add: not_in_pending_length)
    ultimately show ?thesis using p cbs unfolding r' by (auto simp: active_ids_def pending_ids_def fst_map_insert_image)
  qed (use assms cbs in simp)
qed

lemma law_set_limit:
  assumes "aw_ok w" "0 \<le> n" "n < 2 ^ 31"
  shows "\<exists>w'. wd_set_max_concurrent (agent_ops parse_str to_string stats env) 0 n w = (Inr (), w') \<and> aw_ok w' \<and>
    v_limit (aw_view to_string w') = (if n = 0 then None else Some (nat n)) \<and>
    v_room (aw_view to_string w') = v_room (aw_view to_string w) \<and> v_active (aw_view to_string w) \<le> v_active (aw_view to_string w') \<and>
    (v_pending (aw_view to_string w) = [] \<longrightarrow> v_active (aw_view to_string w') = v_active (aw_view to_string w) \<and> v_pending (aw_view to_string w') = []) \<and>
    (\<forall>u. aw_fresh parse_str to_string u w \<longrightarrow> aw_fresh parse_str to_string u w')"
proof -
  let ?c = "aw_control w"
  obtain r where r: "aw_remote w = Some r" "sm_remote (ct_sm ?c) = Some r" "wf_remote r" "rs_session r \<noteq> None"
    by (rule aw_ok_remote [OF assms(1)])
  have ok: "ct_agent_open ?c" "\<not> ct_poisoned ?c" "ct_agent_q ?c = []" "ct_sm_q ?c = []" "ct_cb_q ?c = []" "ct_cb_open ?c"
    using assms(1) by (auto simp: aw_ok_def serving_def)
  have n: "as_u64 n = nat n" using assms(2,3) by (simp add: as_u64_def)
  define lim where "lim = (if n = 0 then None else Some (nat n))"
  define cfg where "cfg = (ct_cfg ?c)\<lparr>rc_max_concurrent := (if nat n = 0 then DEFAULT_MAX_CONCURRENT else nat n)\<rparr>"
  have h: "handle_set_max_concurrent n ?c = (Inr (), ?c\<lparr>ct_cfg := cfg, ct_agent_q := [AgSetMaxConcurrent (nat n)]\<rparr>)"
    using ok n by (simp add: handle_set_max_concurrent_def lock_runtime_cfg_def send_cmd_def cfg_def Let_def)
  have fwd: "agent_forward (AgSetMaxConcurrent (nat n)) = CmdSetMaxConcurrent lim" using assms(2) by (simp add: lim_def)
  have wl: "wf_remote (r\<lparr>rs_max_concurrent := lim\<rparr>)" using r(3) by (simp add: wf_remote_def active_ids_def pending_ids_def)
  obtain r' arl cbs where p: "promote_pending env (r\<lparr>rs_max_concurrent := lim\<rparr>) (sm_arl (ct_sm ?c)) = (r', arl, cbs)" by (metis prod.exhaust)
  note wp = wf_promote [OF wl p]
  define m where "m = (ct_sm ?c)\<lparr>sm_remote := Some r', sm_arl := arl, sm_callbacks := sm_callbacks (ct_sm ?c) @ cbs @ [QueueStatus (queue_status_of r')]\<rparr>"
  have d: "dispatch_cmd parse_str stats env (agent_forward (AgSetMaxConcurrent (nat n))) (ct_sm ?c) = (NoReply, m)"
    unfolding fwd using r(2) p by (simp add: dispatch_cmd_def refill_def m_def)
  define w' where "w' = aw_settle parse_str to_string stats env (?c\<lparr>ct_cfg := cfg, ct_agent_q := [AgSetMaxConcurrent (nat n)]\<rparr>) w"
  have w': "ct_sm (aw_control w') = m" "serving (aw_control w')" "ct_cb_open (aw_control w')" "ct_agent_q (aw_control w') = []"
    "ct_sm_q (aw_control w') = []" "ct_cb_q (aw_control w') = []"
    unfolding w'_def using settle_command [of "?c\<lparr>ct_cfg := cfg, ct_agent_q := [AgSetMaxConcurrent (nat n)]\<rparr>" "AgSetMaxConcurrent (nat n)" parse_str stats env NoReply m] d ok
    by (simp_all add: serving_def)
  have "wd_set_max_concurrent (agent_ops parse_str to_string stats env) 0 n w = (Inr (), w')"
    using h by (simp add: agent_ops_def at_agent_def aw_rpc_def Let_def flip: w'_def)
  moreover have rem: "aw_remote w' = Some r'" using w'(1) by (simp add: aw_remote_def m_def)
  moreover have "aw_ok w'" using w' rem wp r(4) by (simp add: aw_ok_def)
  moreover have "aw_fresh parse_str to_string u w'" if "aw_fresh parse_str to_string u w" for u
    using that rem r(1) wp by (auto simp: aw_fresh_def active_ids_def pending_ids_def split: option.splits)
  ultimately show ?thesis using wp r(1) by (auto simp: aw_view_def lim_def)
qed

lemma law_set_callback:
  assumes "aw_ok w"
  shows "\<exists>w'. wd_set_callback (agent_ops parse_str to_string stats env) 0 cb w = (Inr [], w') \<and> aw_ok w' \<and>
    aw_view to_string w' = aw_view to_string w \<and> (\<forall>u. aw_fresh parse_str to_string u w \<longrightarrow> aw_fresh parse_str to_string u w') \<and> aw_listening cb w'"
proof -
  let ?c = "aw_control w"
  have ok: "ct_agent_q ?c = []" "ct_sm_q ?c = []" "ct_cb_q ?c = []" "ct_cb_open ?c" using assms by (auto simp: aw_ok_def)
  have h: "handle_set_callback (show_nat cb) ?c = (Inr [], ?c\<lparr>ct_cb_q := [Register (show_nat cb)]\<rparr>)"
    using ok by (simp add: handle_set_callback_def send_callback_cmd_def)
  define w' where "w' = aw_settle parse_str to_string stats env (?c\<lparr>ct_cb_q := [Register (show_nat cb)]\<rparr>) w"
  have w': "w' = w\<lparr>aw_control := ?c\<lparr>ct_cb_q := []\<rparr>, aw_cb := (aw_cb w)\<lparr>ca_client := Some (cb, test_handler_new)\<rparr>\<rparr>"
    unfolding w'_def using settle_idle [of "?c\<lparr>ct_cb_q := [Register (show_nat cb)]\<rparr>"] ok
    by (simp add: callback_run_def aw_connect_def)
  have "wd_set_callback (agent_ops parse_str to_string stats env) 0 cb w = (Inr [], w')"
    using h by (simp add: agent_ops_def aw_rpc_def Let_def flip: w'_def)
  moreover have "aw_remote w' = aw_remote w" unfolding w' by (simp add: aw_remote_def)
  ultimately show ?thesis using assms unfolding w' by (auto simp: aw_ok_def serving_def aw_view_def aw_fresh_def aw_listening_def)
qed

lemma law_start_refused:
  assumes "aw_ok w" "v_limit (aw_view to_string w) = Some l" "l \<le> v_active (aw_view to_string w)"
    and "wd_stream_start (agent_ops parse_str to_string stats env) 0 s info p w = (Inr resp, w')"
  shows "wr_status resp \<noteq> Some RUNNING"
proof (cases "parse_str s")
  case None
  then show ?thesis using assms(4) by (simp add: agent_ops_def at_agent_def aw_rpc_def handle_stream_start_def)
next
  case (Some u)
  obtain r where r: "aw_remote w = Some r" "sm_remote (ct_sm (aw_control w)) = Some r" by (rule aw_ok_remote [OF assms(1)])
  have full: "\<not> has_active_slot r" using assms(2,3) r(1) by (simp add: has_active_slot_def aw_view_def)
  let ?p = "\<lparr>ps_uuid = u, ps_info = \<lparr>size_bytes = map_option as_u64 (w_size_bytes info), attrs = unwrap_or (w_attrs info) Map.empty\<rparr>, ps_priority = Priority p\<rparr>"
  obtain rs m where on: "on_stream_start (env u) ?p (ct_sm (aw_control w)) = (rs, m)" by (metis prod.exhaust)
  have "sr_status rs \<noteq> RUNNING" and cbs: "\<exists>cmds. sm_callbacks m = sm_callbacks (ct_sm (aw_control w)) @ cmds"
    using on r(2) full by (auto simp: on_stream_start_def Let_def split: if_splits prod.splits)
  moreover obtain cmds where "sm_callbacks m = sm_callbacks (ct_sm (aw_control w)) @ cmds" using cbs by blast
  with start_effect [where env = env and parse_str = parse_str and s = s and info = info and p = p and stats = stats and
      to_string = to_string and cmds = cmds, OF assms(1) Some on]
  have "resp = \<lparr>wr_status = Some (sr_status rs), wr_queue_position = sr_queue_position rs\<rparr>" using assms(4) by auto
  ultimately show ?thesis by simp
qed

text \<open>The contract holds of the modelled agent when every stream it tries to open does open.\<close>

interpretation agent: admission "agent_ops parse_str to_string stats (\<lambda>u. Opened (port u))" 0 aw_ok "aw_view to_string"
    "aw_fresh parse_str to_string" aw_listening
  for parse_str to_string stats port
proof (unfold_locales, goal_cases)
  case (1 w)
  then show ?case by (simp add: agent_ops_def)
next
  case (2 w n)
  then show ?case by (rule law_set_limit)
next
  case (3 w)
  then show ?case by (auto simp: agent_ops_def aw_ok_def aw_view_def aw_remote_def aw_fresh_def)
next
  case (4 w cb)
  then show ?case by (rule law_set_callback)
next
  case (5 w b cb res w')
  then show ?case
    using law_set_callback [of w parse_str to_string stats "\<lambda>u. Opened (port u)" cb]
    by (cases "b = 0") (auto simp: agent_ops_def)
next
  case (6 w u l info p)
  then show ?case by (rule law_start_runs)
next
  case (7 w u l info p)
  then show ?case by (rule law_start_waits)
next
  case (8 w l u info p r w')
  then show ?case by (rule law_start_refused)
next
  case (9 w)
  then show ?case by (auto simp: agent_ops_def at_agent_def handle_get_bandwidth_cap_bps_def lock_runtime_cfg_def aw_ok_def serving_def)
next
  case (10 w cb evs)
  then show ?case by (auto simp: agent_ops_def aw_set_events_def aw_ok_def aw_view_def aw_remote_def split: option.splits prod.splits)
qed

text \<open>An agent that has just started, before any client registered.\<close>

definition aw_start :: "control \<Rightarrow> agent_world" where
  "aw_start c = \<lparr>aw_control = c, aw_cb = callback_new, aw_next = 0\<rparr>"

lemma aw_start_facts:
  assumes "control_new cfg session = Some c"
  shows "aw_ok (aw_start c)" "v_active (aw_view to_string (aw_start c)) = 0" "v_pending (aw_view to_string (aw_start c)) = []"
    "v_room (aw_view to_string (aw_start c)) = cf_max_pending cfg"
    "parse_str (to_string u) = Some u \<Longrightarrow> aw_fresh parse_str to_string (to_string u) (aw_start c)"
  using assms by (auto simp: control_new_def sm_new_def rs_new_def aw_start_def aw_ok_def serving_def aw_remote_def aw_view_def
      aw_fresh_def wf_remote_def active_ids_def pending_ids_def pend.descending_def split: sum.splits option.splits)

lemma max_concurrent_on_agent:
  assumes "control_new cfg session = Some c" and "\<And>u. parse_str (to_string u) = Some u"
    and "0 < max_concurrent" "max_concurrent < stream_count" "max_concurrent < 2 ^ 31"
    and "stream_count - max_concurrent \<le> cf_max_pending cfg" "cf_max_pending cfg < 2 ^ 31"
    and "length us = stream_count" "distinct us" "tc_sender_c2i ctx = 0"
  shows "\<exists>w. cmd_max_concurrent (agent_ops parse_str to_string stats (\<lambda>u. Opened (port u))) ctx max_concurrent stream_count
      (map to_string us) (aw_start c) = (Inr (), w) \<and> aw_ok w \<and> max_concurrent \<le> v_active (aw_view to_string w)"
proof (rule agent.max_concurrent_passes)
  note f = aw_start_facts [OF assms(1)]
  show "aw_ok (aw_start c)" "v_active (aw_view to_string (aw_start c)) = 0" "v_pending (aw_view to_string (aw_start c)) = []"
    by (rule f(1), rule f(2), rule f(3))
  show "stream_count - max_concurrent \<le> v_room (aw_view to_string (aw_start c))" "v_room (aw_view to_string (aw_start c)) < 2 ^ 31"
    unfolding f(4) by (rule assms)+
  have "inj_on to_string (set us)"
  proof (rule inj_onI)
    fix u v
    assume "to_string u = to_string v"
    then have "parse_str (to_string u) = parse_str (to_string v)" by (rule arg_cong)
    then show "u = v" unfolding assms(2) by simp
  qed
  then show "distinct (map to_string us)" using assms(9) by (simp add: distinct_map)
  show "\<forall>s \<in> set (map to_string us). aw_fresh parse_str to_string s (aw_start c)"
  proof
    fix s
    assume "s \<in> set (map to_string us)"
    then obtain u where "s = to_string u" by auto
    then show "aw_fresh parse_str to_string s (aw_start c)" using f(5) [of parse_str to_string u] assms(2) [of u] by simp
  qed
  show "length (map to_string us) = stream_count" using assms(8) by simp
qed (rule assms)+

section \<open>Properties\<close>

text \<open>C18 (functional): the max-concurrent test passes on the agent. Run against a freshly started agent on which streams open, for
  any limit and any larger number of streams the pending queue has room for, \<open>cmd_max_concurrent\<close> ends without an
  error: the first streams run, the others wait, and the last queue status that reaches the test's callback server
  has the right number of active streams and the waiting ones in descending priority, those of equal priority in the order submitted.\<close>

theorem max_concurrent_test_passes:
  assumes "control_new cfg session = Some c" and "\<And>u. parse_str (to_string u) = Some u"
    and "0 < max_concurrent" "max_concurrent < stream_count" "max_concurrent < 2 ^ 31"
    and "stream_count - max_concurrent \<le> cf_max_pending cfg" "cf_max_pending cfg < 2 ^ 31"
    and "length us = stream_count" "distinct us"
  shows "\<exists>w. cmd_max_concurrent (agent_ops parse_str to_string stats (\<lambda>u. Opened (port u)))
      \<lparr>tc_sender_c2i = 0, tc_receiver_c2i = 1, tc_skip_bw_check = skip\<rparr> max_concurrent stream_count (map to_string us) (aw_start c) = (Inr (), w)"
proof -
  have "tc_sender_c2i \<lparr>tc_sender_c2i = 0, tc_receiver_c2i = 1, tc_skip_bw_check = skip\<rparr> = 0" by simp
  from max_concurrent_on_agent [OF assms this] show ?thesis by blast
qed

theorem max_concurrent_test_passes_witness:
  "\<exists>w. cmd_max_concurrent (agent_ops (\<lambda>s. Some (length s)) (\<lambda>u. replicate u CHR ''a'') (\<lambda>_. default_conn_stats) (\<lambda>u. Opened (5000 + u)))
      \<lparr>tc_sender_c2i = 0, tc_receiver_c2i = 1, tc_skip_bw_check = False\<rparr> 2 5
      (map (\<lambda>u. replicate u CHR ''a'') [3, 1, 4, 2, 5]) (aw_start (the (control_new demo_config 0))) = (Inr (), w)"
  by (rule max_concurrent_test_passes [OF demo_config_starts]) (simp_all add: demo_config_def DEFAULT_MAX_PENDING_def)

text \<open>The tests do not clean up. The max-concurrent test only raises the limit again, its streams stay on the agent
  without a client; the drr test run after it on the same agents fails, because its anchor stream finds no free slot.\<close>

theorem drr_fails_after_max_concurrent:
  assumes "control_new cfg session = Some c" and "\<And>u. parse_str (to_string u) = Some u"
    and "0 < max_concurrent" "max_concurrent < stream_count" "max_concurrent < 2 ^ 31"
    and "stream_count - max_concurrent \<le> cf_max_pending cfg" "cf_max_pending cfg < 2 ^ 31"
    and "length us = stream_count" "distinct us" and "ops = agent_ops parse_str to_string stats (\<lambda>u. Opened (port u))"
    and "ctx = \<lparr>tc_sender_c2i = 0, tc_receiver_c2i = 1, tc_skip_bw_check = skip\<rparr>"
  shows "\<exists>w e w'. cmd_max_concurrent ops ctx max_concurrent stream_count (map to_string us) (aw_start c) = (Inr (), w) \<and>
    cmd_drr ops digest gen ctx file_count anchor_uuid uuids w = (Inl e, w')"
proof -
  have ctx: "tc_sender_c2i ctx = 0" using assms(11) by simp
  obtain w where w: "cmd_max_concurrent ops ctx max_concurrent stream_count (map to_string us) (aw_start c) = (Inr (), w)" "aw_ok w"
    "max_concurrent \<le> v_active (aw_view to_string w)"
    using max_concurrent_on_agent [OF assms(1-9) ctx, of stats port] unfolding assms(10) by blast
  have "0 < v_active (aw_view to_string w)" using w(3) assms(3) by simp
  from agent.drr_blocked [OF w(2) this ctx] show ?thesis unfolding assms(10) using w(1) [unfolded assms(10)] by blast
qed

theorem drr_fails_after_max_concurrent_witness:
  "let ops = agent_ops (\<lambda>s. Some (length s)) (\<lambda>u. replicate u CHR ''a'') (\<lambda>_. default_conn_stats) (\<lambda>u. Opened (5000 + u));
       ctx = \<lparr>tc_sender_c2i = 0, tc_receiver_c2i = 1, tc_skip_bw_check = False\<rparr>
   in \<exists>w e w'. cmd_max_concurrent ops ctx 2 5 (map (\<lambda>u. replicate u CHR ''a'') [3, 1, 4, 2, 5]) (aw_start (the (control_new demo_config 0))) = (Inr (), w) \<and>
     cmd_drr ops (\<lambda>bs. []) (\<lambda>n. []) ctx 3 ''aaaaaa'' [''a'', ''b'', ''c''] w = (Inl e, w')"
  unfolding Let_def
  by (rule drr_fails_after_max_concurrent [OF demo_config_starts _ _ _ _ _ _ _ _ refl refl])
     (simp_all add: demo_config_def DEFAULT_MAX_PENDING_def)

end
