(* ===== verification/Spec2Isabelle.thy ===== *)
theory Spec2Isabelle
  imports Sender_Refinement Quic Bw_Cap_Test E2e_Admission
begin

text \<open>
  \<^bold>\<open>Quelay: a relay of byte streams over a link that fails.\<close>

  A Quelay agent runs beside its clients. A client asks its agent over Thrift to start a stream,
  connects a TCP socket to the port it is given and writes; the agent sends the bytes in chunks over
  QUIC to the agent on the other side, which writes them to the TCP socket of its own client. When the
  QUIC connection is lost the agents reconnect and the transfer goes on where the receiver left off.
  All streams of an agent share one bandwidth cap, distributed by a deficit round robin scheduler with
  strict priority for control traffic, and a bounded number of them run at a time.

  \<^bold>\<open>How the parts interact.\<close> The Thrift handlers (thrift_srv.rs) put commands in the channel of the
  agent loop (agent.rs), which passes them to the session manager (session_manager.rs). The session
  manager admits, queues and promotes streams; for each it opens a QUIC stream, writes a header
  (framing.rs), registers it with the rate limiter (rate_limiter.rs) and spawns the uplink tasks
  (active_stream.rs): the TCP reader fills the spool, the pump drains it as the limiter's tickets
  allow, the ack task frees what the receiver has acknowledged. On the other side the accept loop reads
  the header and spawns a downlink task. After a link failure the session manager reconnects, gives
  every uplink a new stream on which the pump replays from the first unacknowledged byte, and drains
  the pending queue. Events go to the client through the callback agent (callback.rs).

  \<^bold>\<open>Theories.\<close> In the order of their imports; each definition is named after the function or type it
  translates and stands in the order of the source.

  \<^item> \<open>Prelude\<close>: machine arithmetic (64 and 32 bit, wrapping and saturating), big-endian bytes,
    \<open>Vec\<close> operations, and the locale \<open>priority_order\<close> of a queue kept in descending priority.
  \<^item> \<open>Domain\<close>: priorities, errors, link states, metadata (quelay-domain).
  \<^item> \<open>Drr_Scheduler\<close>: scheduler.rs. The locale \<open>budget_allocator\<close> states what a scheduler promises the
    limiter; it is interpreted on \<open>schedule\<close>. Shown: the invariant of the tables over all operations, the strict
    part equals a greedy reference, work conservation, a fair round, and two flaws.
  \<^item> \<open>Framing\<close>: framing.rs, on readers and writers that may break at any byte. Round trips of headers,
    messages and chunk streams, what a broken connection can leave, and the limits of the length field.
    The locale \<open>chunk_codec\<close> is interpreted on the pump's encoder and on \<open>write_chunk\<close>.
  \<^item> \<open>Spool\<close>: \<open>SpoolBuffer\<close>. The locale \<open>byte_spool\<close> (a window on a byte stream) is what the pump and the
    ack task rely on; the spool refines it.
  \<^item> \<open>Rate_Limiter\<close>: parameters, registration and the tick of the timer task; bounds of what a tick
    delivers, the invariant between the limiter and the scheduler, and the flaw in the budget.
  \<^item> \<open>Stream_Pump\<close>: the pump as a state machine over tickets and link events: what it puts on the wire,
    when it ends the stream, that it does end, that it replays.
  \<^item> \<open>Thrift_Mapping\<close> and \<open>Callback\<close>: conversions to wire types, the callback agent.
  \<^item> \<open>Downlink\<close> and \<open>Uplink\<close>: the tasks of a stream at either end as step functions over any sequence of
    events; exactly-once delivery, the contents of the spool, how a transfer ends.
  \<^item> \<open>Relay\<close>: sender, link and receiver composed as an inductive step relation with link failures and
    reconnects at any point; the invariant gives exactly-once delivery end to end, no gaps and no panic.
  \<^item> \<open>Sender_Refinement\<close>: the pump's code, down to the bytes it writes, implements the sender of the
    relay, so the relay's properties hold of transfers it drives.
  \<^item> \<open>Session_Manager\<close>: admission, queue, recovery and the accept loop, with runs as an inductive step
    relation; the invariant, every branch of \<open>stream_start\<close>, recovery, the back-off.
  \<^item> \<open>Control_Plane\<close>: settings, Thrift handlers and agent loop, interleaved with the session manager.
  \<^item> \<open>Quic\<close>: the transport wrappers of quelay-quic over quinn as a parameter; a stream ends once.
  \<^item> \<open>Float64\<close>: Rust's \<open>f64\<close> as executable IEEE binary64 arithmetic. The locale \<open>rounding\<close> (representable numbers
    are fixed and not crossed) is interpreted on \<open>f64_round\<close>; its users get exact results and error bounds from it.
  \<^item> \<open>Bandwidth\<close>: \<open>parse_bandwidth\<close> and \<open>bw_cap_display\<close> (config.rs) on characters: what is printed is read back,
    how far a fractional cap can be off, and the negative cap that is accepted.
  \<^item> \<open>Bw_Cap_Test\<close>: the bandwidth test program (bin/bw_cap_test): the controller and tuners as state machines, the size of
    the payloads, the start of the streams and the verdict. A tuner reports once; what rates the verdict accepts.
  \<^item> \<open>E2e_Test\<close>: the end-to-end test program (bin/e2e-test): its callback server, transfers, checks and four
    subcommands, in a state and error monad over a \<open>world\<close>, the record of the calls it makes to agents, sockets and
    clock. Shown for any world: a passing transfer delivered bytes with the digest of the payload; its time limit is
    long enough.
  \<^item> \<open>E2e_Admission\<close>: the subcommands on the queue against the agent. The locale \<open>admission\<close> says what they rely on;
    it is interpreted on a world composed of \<open>Control_Plane\<close>, \<open>Session_Manager\<close> and \<open>Callback\<close>, so the max-concurrent
    test is shown to pass on the agent, and the drr test to fail after it.

  \<^bold>\<open>Conventions.\<close> Unsigned integers are natural numbers with the wrap-around of a release build written
  out; bytes and the raw priority are 8-bit words; UUIDs are numbers. A \<open>Result\<close> is a sum, an error
  message its literal text without the interpolated values. A \<open>HashMap\<close> is a map, or an association list
  in arbitrary order where it is iterated. Code of other crates (serde_json, uuid, quinn, tokio sockets,
  thrift, sha2, rand) is an argument with what is assumed of it as a hypothesis. Floating point numbers that a decision
  depends on are computed as in \<open>Float64\<close>; the percentages of progress reports, which are only printed, are kept
  as the pair they are computed from. A mutex held around a piece of code makes it one step; tasks
  interleave between steps.

  \<^bold>\<open>Termination and fuel.\<close> Only \<open>read_chunks\<close>, which reads a whole stream in the statements on framing, has
  fuel: more than the number of chunks is enough, as those theorems say. The loops of \<open>schedule\<close> and of \<open>drain_alloc\<close> end by a
  measure (the budget, then the idle count; the remaining bytes), \<open>interleave\<close> of the max-concurrent test by the distance of its indices.
  The test program's waits are bounded by time limits: the events a channel brings before the limit are a finite list. The endless loops of the tasks are
  modelled by one turn, and by runs over any finite sequence of events. \<open>reconnect_loop\<close>, which goes on
  until an attempt succeeds, takes the answers of the network one per attempt; the theorem says it ends
  with the first success.

  \<^bold>\<open>Not modelled.\<close> TLS (tls.rs) and the construction of endpoints (quelay-quic), which only set up rcgen, rustls and
  quinn. Logging, console reports, command lines (clap), socket binding, thread and task creation, signals, and wall-clock time
  (a progress report is due or not, as an argument; a test's elapsed time is an answer of its world) are left out. In the tests the
  random payloads (rand) and the SHA-256 digest are arguments, and a world in which agents move bytes between each
  other is not built from the relay: the transfers are shown correct for every world instead. The examples
  (quelay-example) repeat a single transfer and the conversions of \<open>Thrift_Mapping\<close>.
\<close>

end
